theory Spec2Isabelle
  imports Complex_Main "HOL-Library.Sublist"
begin

unbundle bit_operations_syntax

section \<open>Numbers\<close>

text \<open>
  The loader \<^verbatim>\<open>src/source/loaders/POCLoader.js\<close> computes with JavaScript numbers, which
  are IEEE-754 binary64 doubles. A finite double is modelled as the real number it
  denotes. An arithmetic operation computes the exact result and rounds it to the
  nearest double, ties to the even significand: 53 significant bits, and no bit below
  \<open>2 powi (- 1074)\<close> (the subnormal numbers). The model has no \<^verbatim>\<open>NaN\<close>, no infinities and no
  sign of zero: the numbers of a document are finite, and a result beyond the largest
  double, which is an infinity in JavaScript, is rounded as if the exponents had no upper
  end. So \<open>round_double\<close> gives the JavaScript result when that result is finite, which is
  when the rounded number is in range (\<open>in_range\<close>), and the properties that depend on it
  say so. A number that is an integer or \<^verbatim>\<open>NaN\<close> (the result of \<^verbatim>\<open>parseInt\<close>) is an
  \<open>int option\<close>, \<open>None\<close> being \<^verbatim>\<open>NaN\<close>.
\<close>

fun bit_length :: "nat \<Rightarrow> nat" where
  "bit_length n = (if n = 0 then 0 else Suc (bit_length (n div 2)))"

declare bit_length.simps [simp del]

text \<open>The nearest integer, a tie going to the even one.\<close>

definition round_half_even :: "real \<Rightarrow> int" where
  "round_half_even x =
     (let f = \<lfloor>x\<rfloor>; d = x - of_int f
      in if d < 1 / 2 then f
         else if 1 / 2 < d then f + 1
         else if even f then f else f + 1)"

text \<open>
  The binary exponent of a number other than 0: the \<open>e\<close> with
  \<open>2 powi e \<le> \<bar>x\<bar> < 2 powi (e + 1)\<close>, from the bit length of an integer.
\<close>

definition binade :: "real \<Rightarrow> int" where
  "binade x =
     (if 1 \<le> \<bar>x\<bar> then int (bit_length (nat \<lfloor>\<bar>x\<bar>\<rfloor>)) - 1
      else - int (bit_length (nat (\<lceil>1 / \<bar>x\<bar>\<rceil> - 1))))"

text \<open>
  Rounding to a double: the last bit kept is \<open>2 powi q\<close>, 52 places below the leading
  bit and not below \<open>2 powi (- 1074)\<close>.
\<close>

definition round_double :: "real \<Rightarrow> real" where
  "round_double x =
     (if x = 0 then 0
      else (let q = max (binade x - 52) (- 1074)
            in of_int (round_half_even (x / 2 powi q)) * 2 powi q))"

text \<open>The doubles are the numbers that rounding leaves as they are.\<close>

definition is_double :: "real \<Rightarrow> bool" where
  "is_double x \<longleftrightarrow> round_double x = x"

text \<open>The largest double, and the numbers that are not beyond it.\<close>

definition max_double :: real where
  "max_double = (2 ^ 53 - 1) * 2 ^ 971"

definition in_range :: "real \<Rightarrow> bool" where
  "in_range x \<longleftrightarrow> \<bar>x\<bar> \<le> max_double"

text \<open>\<^verbatim>\<open>a + b\<close>, \<^verbatim>\<open>a - b\<close> and \<^verbatim>\<open>a / b\<close> on numbers.\<close>

definition js_add :: "real \<Rightarrow> real \<Rightarrow> real" where
  "js_add a b = round_double (a + b)"

definition js_sub :: "real \<Rightarrow> real \<Rightarrow> real" where
  "js_sub a b = round_double (a - b)"

definition js_div :: "real \<Rightarrow> real \<Rightarrow> real" where
  "js_div a b = round_double (a / b)"

text \<open>
  \<^verbatim>\<open>Math.pow(2, n)\<close> for an integer \<open>n\<close>: the power of two, rounded (to 0 below the
  subnormal numbers), and \<^verbatim>\<open>Infinity\<close> from \<open>n = 1024\<close> on, which is \<open>None\<close> here. \<^verbatim>\<open>a / p\<close>
  for such a \<open>p\<close>: a number divided by \<^verbatim>\<open>Infinity\<close> is 0. The loader divides by
  \<^verbatim>\<open>Math.pow(2, level)\<close> with \<open>level\<close> at least -1, so the divisor is not 0.
\<close>

definition Math_pow2 :: "int \<Rightarrow> real option" where
  "Math_pow2 n = (if 1024 \<le> n then None else Some (round_double (2 powi n)))"

definition js_div_by :: "real \<Rightarrow> real option \<Rightarrow> real" where
  "js_div_by a p = (case p of None \<Rightarrow> 0 | Some d \<Rightarrow> js_div a d)"

section \<open>Vectors and boxes\<close>

text \<open>
  \<^verbatim>\<open>Vector3\<close> and \<^verbatim>\<open>Box3\<close> are the classes of three.js; the operations below are the
  ones the loader calls, on values.
\<close>

record Vector3 =
  vec_x :: real
  vec_y :: real
  vec_z :: real

record Box3 =
  box_min :: Vector3
  box_max :: Vector3

definition new_Vector3 :: "real \<Rightarrow> real \<Rightarrow> real \<Rightarrow> Vector3" where
  "new_Vector3 a b c = \<lparr>vec_x = a, vec_y = b, vec_z = c\<rparr>"

definition new_Box3 :: "Vector3 \<Rightarrow> Vector3 \<Rightarrow> Box3" where
  "new_Box3 lo hi = \<lparr>box_min = lo, box_max = hi\<rparr>"

text \<open>\<^verbatim>\<open>a.sub(b)\<close>: componentwise \<^verbatim>\<open>a -= b\<close>; the value \<open>a\<close> has afterwards.\<close>

definition sub :: "Vector3 \<Rightarrow> Vector3 \<Rightarrow> Vector3" where
  "sub a b =
     \<lparr>vec_x = js_sub (vec_x a) (vec_x b), vec_y = js_sub (vec_y a) (vec_y b),
      vec_z = js_sub (vec_z a) (vec_z b)\<rparr>"

text \<open>\<^verbatim>\<open>new Vector3().subVectors(a, b)\<close>: the fresh vector \<^verbatim>\<open>a - b\<close>.\<close>

definition subVectors :: "Vector3 \<Rightarrow> Vector3 \<Rightarrow> Vector3" where
  "subVectors a b =
     \<lparr>vec_x = js_sub (vec_x a) (vec_x b), vec_y = js_sub (vec_y a) (vec_y b),
      vec_z = js_sub (vec_z a) (vec_z b)\<rparr>"

text \<open>
  \<^verbatim>\<open>index & mask\<close>: both operands go through \<^verbatim>\<open>ToInt32\<close>, which sends \<^verbatim>\<open>NaN\<close> to 0. The
  masks used are 1, 2 and 4, so the wrap-around of \<^verbatim>\<open>ToInt32\<close> at 32 bits does not change
  the result.
\<close>

definition bitand :: "int option \<Rightarrow> int \<Rightarrow> int" where
  "bitand a m = (case a of None \<Rightarrow> 0 | Some i \<Rightarrow> i AND m)"

section \<open>createChildAABB\<close>

text \<open>
  \<^verbatim>\<open>POCLoader.createChildAABB(aabb, index)\<close>, lines 151 to 185, on values: \<open>min\<close> and \<open>max\<close>
  start as copies of the parent's corners, \<open>size\<close> is their difference, and each of the
  three tests moves one coordinate of one corner by half of the size.
\<close>

definition createChildAABB :: "Box3 \<Rightarrow> int option \<Rightarrow> Box3" where
  "createChildAABB aabb index =
    (let min0 = box_min aabb;
         max0 = box_max aabb;
         size = subVectors max0 min0;
         (min1, max1) =
           (if bitand index 1 > 0
            then (min0\<lparr>vec_z := js_add (vec_z min0) (js_div (vec_z size) 2)\<rparr>, max0)
            else (min0, max0\<lparr>vec_z := js_sub (vec_z max0) (js_div (vec_z size) 2)\<rparr>));
         (min2, max2) =
           (if bitand index 2 > 0
            then (min1\<lparr>vec_y := js_add (vec_y min1) (js_div (vec_y size) 2)\<rparr>, max1)
            else (min1, max1\<lparr>vec_y := js_sub (vec_y max1) (js_div (vec_y size) 2)\<rparr>));
         (min3, max3) =
           (if bitand index 4 > 0
            then (min2\<lparr>vec_x := js_add (vec_x min2) (js_div (vec_x size) 2)\<rparr>, max2)
            else (min2, max2\<lparr>vec_x := js_sub (vec_x max2) (js_div (vec_x size) 2)\<rparr>))
     in new_Box3 min3 max3)"





text \<open>
  The two expressions by which the code moves a corner to the middle of the parent:
  \<^verbatim>\<open>max - size / 2\<close> and \<^verbatim>\<open>min + size / 2\<close>, with \<^verbatim>\<open>size = max - min\<close>.
\<close>

definition lower_half :: "real \<Rightarrow> real \<Rightarrow> real" where
  "lower_half lo hi = js_sub hi (js_div (js_sub hi lo) 2)"

definition upper_half :: "real \<Rightarrow> real \<Rightarrow> real" where
  "upper_half lo hi = js_add lo (js_div (js_sub hi lo) 2)"






section \<open>createChildAABB on a store of vector objects\<close>

text \<open>
  The same function with the vectors as mutable objects: a store is the list of the
  \<^verbatim>\<open>Vector3\<close> objects allocated so far, a reference is a position in it, and a \<^verbatim>\<open>Box3\<close>
  holds the references of its two corners. \<^verbatim>\<open>clone()\<close> and \<^verbatim>\<open>new Vector3()\<close> allocate at
  the end of the store; \<^verbatim>\<open>min.z += ...\<close> overwrites the object \<open>min\<close> refers to.
\<close>

type_synonym vector_store = "Vector3 list"

record Box3_ref =
  min_ref :: nat
  max_ref :: nat

definition clone_at :: "vector_store \<Rightarrow> nat \<Rightarrow> vector_store \<times> nat" where
  "clone_at h a = (h @ [h ! a], length h)"

definition subVectors_at :: "vector_store \<Rightarrow> nat \<Rightarrow> nat \<Rightarrow> vector_store \<times> nat" where
  "subVectors_at h a b = (h @ [subVectors (h ! a) (h ! b)], length h)"

definition read_box :: "vector_store \<Rightarrow> Box3_ref \<Rightarrow> Box3" where
  "read_box h b = \<lparr>box_min = h ! min_ref b, box_max = h ! max_ref b\<rparr>"

definition createChildAABB_store ::
  "vector_store \<Rightarrow> Box3_ref \<Rightarrow> int option \<Rightarrow> vector_store \<times> Box3_ref" where
  "createChildAABB_store h aabb index =
    (let (h1, min) = clone_at h (min_ref aabb);
         (h2, max) = clone_at h1 (max_ref aabb);
         (h3, size) = subVectors_at h2 max min;
         h4 = (if bitand index 1 > 0
               then h3[min := (h3 ! min)\<lparr>vec_z := js_add (vec_z (h3 ! min)) (js_div (vec_z (h3 ! size)) 2)\<rparr>]
               else h3[max := (h3 ! max)\<lparr>vec_z := js_sub (vec_z (h3 ! max)) (js_div (vec_z (h3 ! size)) 2)\<rparr>]);
         h5 = (if bitand index 2 > 0
               then h4[min := (h4 ! min)\<lparr>vec_y := js_add (vec_y (h4 ! min)) (js_div (vec_y (h4 ! size)) 2)\<rparr>]
               else h4[max := (h4 ! max)\<lparr>vec_y := js_sub (vec_y (h4 ! max)) (js_div (vec_y (h4 ! size)) 2)\<rparr>]);
         h6 = (if bitand index 4 > 0
               then h5[min := (h5 ! min)\<lparr>vec_x := js_add (vec_x (h5 ! min)) (js_div (vec_x (h5 ! size)) 2)\<rparr>]
               else h5[max := (h5 ! max)\<lparr>vec_x := js_sub (vec_x (h5 ! max)) (js_div (vec_x (h5 ! size)) 2)\<rparr>])
     in (h6, \<lparr>min_ref = min, max_ref = max\<rparr>))"

section \<open>Strings\<close>

text \<open>
  The string operations of JavaScript the loader calls. \<^verbatim>\<open>s.indexOf(t)\<close> is the first
  position at which \<open>t\<close> occurs in \<open>s\<close>, or -1; \<^verbatim>\<open>s.charAt(i)\<close> is the string of the one
  character at \<open>i\<close>, empty out of range; \<^verbatim>\<open>s.substring(a, b)\<close> clamps both positions to
  the string and swaps them when \<open>a > b\<close>.
\<close>

fun indexOf :: "string \<Rightarrow> string \<Rightarrow> int" where
  "indexOf [] t = (if t = [] then 0 else - 1)"
| "indexOf (c # cs) t =
     (if prefix t (c # cs) then 0
      else (let r = indexOf cs t in if r < 0 then - 1 else r + 1))"

definition charAt :: "string \<Rightarrow> int \<Rightarrow> string" where
  "charAt s i = (if 0 \<le> i \<and> i < int (length s) then [s ! nat i] else [])"

definition substring :: "string \<Rightarrow> int \<Rightarrow> int \<Rightarrow> string" where
  "substring s a b =
     (let n = int (length s);
          a' = max 0 (min a n);
          b' = max 0 (min b n);
          lo = min a' b';
          hi = max a' b'
      in take (nat (hi - lo)) (drop (nat lo) s))"

definition is_digit :: "char \<Rightarrow> bool" where
  "is_digit c \<longleftrightarrow> 48 \<le> (of_char c :: nat) \<and> (of_char c :: nat) \<le> 57"

definition digit_value :: "char \<Rightarrow> nat" where
  "digit_value c = of_char c - 48"

text \<open>
  \<^verbatim>\<open>parseInt\<close> on the strings \<^verbatim>\<open>charAt\<close> returns (at most one character): the value of a
  decimal digit, and \<^verbatim>\<open>NaN\<close> for the empty string and for any other character.
\<close>

definition parseInt :: "string \<Rightarrow> int option" where
  "parseInt s =
     (case s of
        [c] \<Rightarrow> (if is_digit c then Some (int (digit_value c)) else None)
      | _ \<Rightarrow> None)"

section \<open>The metadata document\<close>

text \<open>
  The document \<^verbatim>\<open>JSON.parse(xhr.responseText)\<close>, with the fields the loader reads.
  \<open>pointAttributes\<close> is a string or an array; \<open>tightBoundingBox\<close> and \<open>projection\<close> may be
  absent; an absent \<open>hierarchy\<close> is the empty list (the loader fails on both in the
  same way, reading \<^verbatim>\<open>data.hierarchy[0][1]\<close>).
\<close>

record bounds =
  lx :: real
  ly :: real
  lz :: real
  ux :: real
  uy :: real
  uz :: real

datatype 'a attribute_schema = Tag string | Attributes "'a list"

record 'a document =
  version :: string
  octreeDir :: string
  spacing :: real
  hierarchyStepSize :: real
  pointAttributes :: "'a attribute_schema"
  boundingBox :: bounds
  tightBoundingBox :: "bounds option"
  projection :: "string option"
  scale :: real
  hierarchy :: "(string \<times> real) list"

datatype error = TypeError | MalformedDocument

section \<open>Version\<close>

text \<open>
  Modelled from the spec: the class \<^verbatim>\<open>Version\<close> (\<^verbatim>\<open>src/source/Version.js\<close>) is not among
  the sources. The spec: a version string has the form \<^verbatim>\<open>"major.minor"\<close>; \<^verbatim>\<open>upTo(threshold)\<close>
  is true if the parsed version is at most the threshold, comparing the components as
  numbers; an unparseable version string is a fatal input error. The thresholds
  \<^verbatim>\<open>'1.5'\<close> and \<^verbatim>\<open>'1.4'\<close> of the loader are written \<open>(1, 5)\<close> and \<open>(1, 4)\<close>.
\<close>

record Version =
  versionMajor :: nat
  versionMinor :: nat

definition parse_decimal :: "string \<Rightarrow> nat option" where
  "parse_decimal s =
     (if s \<noteq> [] \<and> list_all is_digit s
      then Some (foldl (\<lambda>n c. 10 * n + digit_value c) 0 s)
      else None)"

definition new_Version :: "string \<Rightarrow> Version option" where
  "new_Version s =
     (let major = takeWhile (\<lambda>c. c \<noteq> CHR ''.'') s;
          rest = dropWhile (\<lambda>c. c \<noteq> CHR ''.'') s
      in case rest of
           [] \<Rightarrow> None
         | _ # minor \<Rightarrow>
             (case (parse_decimal major, parse_decimal minor) of
                (Some a, Some b) \<Rightarrow> Some \<lparr>versionMajor = a, versionMinor = b\<rparr>
              | _ \<Rightarrow> None))"

definition upTo :: "Version \<Rightarrow> nat \<times> nat \<Rightarrow> bool" where
  "upTo v t \<longleftrightarrow>
     versionMajor v < fst t \<or> (versionMajor v = fst t \<and> versionMinor v \<le> snd t)"

section \<open>Decoders and attributes\<close>

text \<open>
  The classes \<^verbatim>\<open>LASLAZLoader\<close>, \<^verbatim>\<open>BinaryLoader\<close> and \<^verbatim>\<open>PointAttributes\<close> are not among the
  sources. A decoder is the constructor called with its arguments; the first argument of
  both is \<^verbatim>\<open>data.version\<close>, the version string of the document. The constructor of
  \<^verbatim>\<open>PointAttributes\<close> is a parameter \<open>PA\<close> of the loader: the descriptor's attributes
  are the raw value of the document or the object \<open>PA\<close> made of it.
\<close>

datatype loader = LASLAZLoader string | BinaryLoader string Box3 real

datatype ('a, 'pa) point_attributes = Raw "'a attribute_schema" | Expanded 'pa

section \<open>Nodes\<close>

text \<open>
  The class \<^verbatim>\<open>PointCloudOctreeGeometryNode\<close> is not among the sources. A node is the
  record of the fields the loader passes to the constructor or assigns, with the index
  and the children the spec gives it; nodes are objects shared by reference, so they
  live in a store (the list of the nodes built so far, a reference being a position in
  it). \<open>node_hasChildren\<close> is \<open>None\<close> where the loader does not assign it.
\<close>

record PointCloudOctreeGeometryNode =
  node_name :: string
  node_index :: "int option"
  node_boundingBox :: Box3
  node_level :: int
  node_numPoints :: real
  node_spacing :: real
  node_hasChildren :: "bool option"
  node_children :: "int option \<rightharpoonup> nat"
  node_parent :: "nat option"

text \<open>
  Modelled from the spec: the constructor \<^verbatim>\<open>new PointCloudOctreeGeometryNode(name, pco,
  boundingBox)\<close> keeps the name and the box; the node has no children and no parent yet.
  The spec: each character appended to a name is a digit 0 to 7 that tells which octant
  of the parent the node occupies. The node's index is that last character read as a
  number, by the expression of line 107 (\<open>None\<close>, that is \<^verbatim>\<open>NaN\<close>, when it is no digit).
  Level, point count and spacing are assigned by the loader right after the call.
\<close>

definition new_PointCloudOctreeGeometryNode :: "string \<Rightarrow> Box3 \<Rightarrow> PointCloudOctreeGeometryNode" where
  "new_PointCloudOctreeGeometryNode name box =
     \<lparr>node_name = name, node_index = parseInt (charAt name (int (length name) - 1)),
      node_boundingBox = box, node_level = 0, node_numPoints = 0,
      node_spacing = 0, node_hasChildren = None, node_children = Map.empty, node_parent = None\<rparr>"

text \<open>
  Modelled from the spec: a node has at most 8 children, indexed 0 to 7; the parent owns
  its children, and the child keeps a back-reference to the parent.
  \<^verbatim>\<open>parent.addChild(node)\<close> puts the node among the parent's children at the node's index,
  in the place of a child that was there, and sets the back-reference. A node whose index
  is not one of 0 to 7 is kept under its index as well.
\<close>

definition addChild ::
  "nat \<Rightarrow> nat \<Rightarrow> PointCloudOctreeGeometryNode list \<Rightarrow> PointCloudOctreeGeometryNode list" where
  "addChild parent child objs =
     (let objs1 = objs[parent := (objs ! parent)
                    \<lparr>node_children := (node_children (objs ! parent))(node_index (objs ! child) \<mapsto> child)\<rparr>]
      in objs1[child := (objs1 ! child)\<lparr>node_parent := Some parent\<rparr>])"

section \<open>The loader\<close>

text \<open>
  The phases of a load, as the spec names them. The model records a phase where the code
  does its work: \<open>Normalizing\<close> at lines 63 to 69, \<open>DecoderSelecting\<close> at lines 79 to 87,
  \<open>TreeBuilding\<close> at each \<^verbatim>\<open>new PointCloudOctreeGeometryNode\<close> (lines 92 and 115),
  \<open>RootLoadTriggered\<close> at \<^verbatim>\<open>pco.root.load()\<close> (line 99) and \<open>Done\<close> at \<^verbatim>\<open>callback(pco)\<close>
  (line 125).
\<close>

datatype phase = Normalizing | TreeBuilding | DecoderSelecting | RootLoadTriggered | Done

record tree =
  objects :: "PointCloudOctreeGeometryNode list"
  nodes :: "string \<rightharpoonup> nat"
  phases :: "phase list"

record ('a, 'pa) PointCloudOctreeGeometry =
  pco_url :: string
  pco_octreeDir :: string
  pco_spacing :: real
  pco_hierarchyStepSize :: real
  pco_pointAttributes :: "('a, 'pa) point_attributes"
  pco_projection :: "string option"
  pco_boundingBox :: Box3
  pco_tightBoundingBox :: Box3
  pco_offset :: Vector3
  pco_loader :: loader
  pco_root :: nat
  pco_nodes :: "string \<rightharpoonup> nat"
  pco_objects :: "PointCloudOctreeGeometryNode list"

text \<open>
  Lines 52 to 69: the two boxes and the offset. \<^verbatim>\<open>boundingBox.clone()\<close> and \<^verbatim>\<open>min.clone()\<close>
  copy, so the tight box and the offset keep their values while \<^verbatim>\<open>sub\<close> overwrites the
  corners of \<open>boundingBox\<close>. The bounding spheres (lines 74 and 75) are computed by
  three.js from the two boxes and are left out.
\<close>

definition normalize_boxes :: "bounds \<Rightarrow> bounds option \<Rightarrow> Box3 \<times> Box3 \<times> Vector3" where
  "normalize_boxes bb tbb =
    (let min0 = new_Vector3 (lx bb) (ly bb) (lz bb);
         max0 = new_Vector3 (ux bb) (uy bb) (uz bb);
         boundingBox0 = new_Box3 min0 max0;
         tightBoundingBox0 = boundingBox0;
         tightBoundingBox1 =
           (case tbb of
              None \<Rightarrow> tightBoundingBox0
            | Some t \<Rightarrow> \<lparr>box_min = new_Vector3 (lx t) (ly t) (lz t),
                         box_max = new_Vector3 (ux t) (uy t) (uz t)\<rparr>);
         offset = min0;
         boundingBox1 = \<lparr>box_min = sub (box_min boundingBox0) offset,
                          box_max = sub (box_max boundingBox0) offset\<rparr>;
         tightBoundingBox2 = \<lparr>box_min = sub (box_min tightBoundingBox1) offset,
                               box_max = sub (box_max tightBoundingBox1) offset\<rparr>
     in (boundingBox1, tightBoundingBox2, offset))"

text \<open>
  The same lines on a store of vector objects. \<^verbatim>\<open>new Box3(min, max)\<close> keeps the references
  of \<open>min\<close> and \<open>max\<close>; \<^verbatim>\<open>boundingBox.clone()\<close> and \<^verbatim>\<open>min.clone()\<close> allocate; \<^verbatim>\<open>copy\<close> and
  \<^verbatim>\<open>sub\<close> overwrite the object they are called on (the temporary vectors passed to
  \<^verbatim>\<open>copy\<close> are not kept).
\<close>

definition alloc :: "vector_store \<Rightarrow> Vector3 \<Rightarrow> vector_store \<times> nat" where
  "alloc h v = (h @ [v], length h)"

definition normalize_boxes_store ::
  "vector_store \<Rightarrow> bounds \<Rightarrow> bounds option \<Rightarrow> vector_store \<times> Box3_ref \<times> Box3_ref \<times> nat" where
  "normalize_boxes_store h bb tbb =
    (let (h1, min) = alloc h (new_Vector3 (lx bb) (ly bb) (lz bb));
         (h2, max) = alloc h1 (new_Vector3 (ux bb) (uy bb) (uz bb));
         box = \<lparr>min_ref = min, max_ref = max\<rparr>;
         (h3, tmin) = clone_at h2 (min_ref box);
         (h4, tmax) = clone_at h3 (max_ref box);
         tbox = \<lparr>min_ref = tmin, max_ref = tmax\<rparr>;
         h5 = (case tbb of
                 None \<Rightarrow> h4
               | Some t \<Rightarrow> (h4[min_ref tbox := new_Vector3 (lx t) (ly t) (lz t)])
                              [max_ref tbox := new_Vector3 (ux t) (uy t) (uz t)]);
         (h6, offset) = clone_at h5 min;
         h7 = h6[min_ref box := sub (h6 ! min_ref box) (h6 ! offset)];
         h8 = h7[max_ref box := sub (h7 ! max_ref box) (h7 ! offset)];
         h9 = h8[min_ref tbox := sub (h8 ! min_ref tbox) (h8 ! offset)];
         h10 = h9[max_ref tbox := sub (h9 ! max_ref tbox) (h9 ! offset)]
     in (h10, box, tbox, offset))"

text \<open>Lines 79 to 87: the decoder, and the descriptor's attributes.\<close>

definition select_loader ::
  "('a attribute_schema \<Rightarrow> 'pa) \<Rightarrow> 'a document \<Rightarrow> Box3 \<Rightarrow> loader \<times> ('a, 'pa) point_attributes" where
  "select_loader PA data bbox =
     (if pointAttributes data = Tag ''LAS'' \<or> pointAttributes data = Tag ''LAZ''
      then (LASLAZLoader (version data), Raw (pointAttributes data))
      else (BinaryLoader (version data) bbox (scale data), Expanded (PA (pointAttributes data))))"

text \<open>
  Lines 107 to 120: one round of the loop over \<^verbatim>\<open>data.hierarchy\<close>. Reading
  \<^verbatim>\<open>parentNode.boundingBox\<close> throws a \<^verbatim>\<open>TypeError\<close> when no node is indexed under the
  parent's name.
\<close>

definition hierarchy_entry :: "real \<Rightarrow> string \<times> real \<Rightarrow> tree \<Rightarrow> error + tree" where
  "hierarchy_entry sp e t =
    (let name = fst e;
         numPoints = snd e;
         index = parseInt (charAt name (int (length name) - 1));
         parentName = substring name 0 (int (length name) - 1)
     in case nodes t parentName of
          None \<Rightarrow> Inl TypeError
        | Some parentNode \<Rightarrow>
            (let level = int (length name) - 1;
                 box = createChildAABB (node_boundingBox (objects t ! parentNode)) index;
                 node = (new_PointCloudOctreeGeometryNode name box)
                          \<lparr>node_level := level, node_numPoints := numPoints,
                           node_spacing := js_div_by sp (Math_pow2 level)\<rparr>;
                 ref = length (objects t)
             in Inr \<lparr>objects = addChild parentNode ref (objects t @ [node]),
                     nodes = (nodes t)(name \<mapsto> ref),
                     phases = phases t @ [TreeBuilding]\<rparr>))"

text \<open>Lines 105 to 121: the loop, over the entries after the first.\<close>

fun load_hierarchy :: "real \<Rightarrow> (string \<times> real) list \<Rightarrow> tree \<Rightarrow> error + tree" where
  "load_hierarchy sp [] t = Inr t"
| "load_hierarchy sp (e # es) t =
     (case hierarchy_entry sp e t of
        Inl err \<Rightarrow> Inl err
      | Inr t' \<Rightarrow> load_hierarchy sp es t')"

text \<open>
  Line 96: the root's point count. Reading \<^verbatim>\<open>data.hierarchy[0][1]\<close> throws a \<^verbatim>\<open>TypeError\<close>
  when there is no first entry.
\<close>

definition root_numPoints :: "Version \<Rightarrow> 'a document \<Rightarrow> error + real" where
  "root_numPoints v data =
     (if upTo v (1, 5)
      then (case hierarchy data of [] \<Rightarrow> Inl TypeError | e # _ \<Rightarrow> Inr (snd e))
      else Inr 0)"

text \<open>
  Lines 89 to 100: the index \<open>nodes\<close> with the root node in it, registered under \<^verbatim>\<open>'r'\<close>,
  after \<^verbatim>\<open>pco.root.load()\<close> has been called. The root is the first object of the store.
\<close>

definition load_root :: "'a document \<Rightarrow> Box3 \<Rightarrow> real \<Rightarrow> tree" where
  "load_root data bbox n =
    (let name = ''r'';
         root = (new_PointCloudOctreeGeometryNode name bbox)
                  \<lparr>node_level := 0, node_hasChildren := Some True,
                   node_spacing := spacing data, node_numPoints := n\<rparr>
     in \<lparr>objects = [root], nodes = [name \<mapsto> 0],
         phases = [Normalizing, DecoderSelecting, TreeBuilding, RootLoadTriggered]\<rparr>)"

text \<open>
  Lines 35 to 123 of \<^verbatim>\<open>xhr.onload\<close>: the descriptor as it is when the callback is called,
  and the phases gone through.
\<close>

definition onload_pco ::
  "('a attribute_schema \<Rightarrow> 'pa) \<Rightarrow> string \<Rightarrow> 'a document \<Rightarrow>
     error + (phase list \<times> ('a, 'pa) PointCloudOctreeGeometry)" where
  "onload_pco PA url data =
    (case new_Version (version data) of
       None \<Rightarrow> Inl MalformedDocument
     | Some v \<Rightarrow>
        (let dir = (if indexOf (octreeDir data) ''http'' = 0
                    then octreeDir data
                    else url @ ''/../'' @ octreeDir data);
             (bbox, tbox, offset) = normalize_boxes (boundingBox data) (tightBoundingBox data);
             (ldr, attrs) = select_loader PA data bbox
         in case root_numPoints v data of
              Inl err \<Rightarrow> Inl err
            | Inr n \<Rightarrow>
               (case (if upTo v (1, 4)
                      then load_hierarchy (spacing data) (drop 1 (hierarchy data))
                             (load_root data bbox n)
                      else Inr (load_root data bbox n)) of
                  Inl err \<Rightarrow> Inl err
                | Inr t \<Rightarrow>
                    Inr (phases t,
                         \<lparr>pco_url = url, pco_octreeDir = dir, pco_spacing = spacing data,
                          pco_hierarchyStepSize = hierarchyStepSize data,
                          pco_pointAttributes = attrs, pco_projection = projection data,
                          pco_boundingBox = bbox, pco_tightBoundingBox = tbox,
                          pco_offset = offset, pco_loader = ldr, pco_root = 0,
                          pco_nodes = nodes t, pco_objects = objects t\<rparr>))))"

text \<open>
  The world outside the loader: the counter \<^verbatim>\<open>Global.numNodesLoading\<close>, the lines
  written by \<^verbatim>\<open>console.log\<close>, the arguments of each call of \<^verbatim>\<open>callback\<close> (\<open>None\<close> for
  \<^verbatim>\<open>callback()\<close>), and the phases recorded.
  What \<^verbatim>\<open>pco.root.load()\<close> does is outside the sources: the model records that it is
  called, at its place in the order.
\<close>

record ('a, 'pa, 'e) world =
  numNodesLoading :: int
  console :: "(string \<times> string \<times> 'e) list"
  callbacks :: "('a, 'pa) PointCloudOctreeGeometry option list"
  recorded :: "phase list"

text \<open>
  \<^verbatim>\<open>xhr.onload\<close>, lines 33 to 126. An exception thrown in the handler is the result
  \<open>Inl\<close>: the callback is not called, and what the handler did before the exception is
  not recorded.
\<close>

definition onload ::
  "('a attribute_schema \<Rightarrow> 'pa) \<Rightarrow> string \<Rightarrow> 'a document \<Rightarrow> ('a, 'pa, 'e) world \<Rightarrow>
     error + ('a, 'pa, 'e) world" where
  "onload PA url data w =
    (case onload_pco PA url data of
       Inl err \<Rightarrow> Inl err
     | Inr (ps, pco) \<Rightarrow>
         Inr (w\<lparr>callbacks := callbacks w @ [Some pco], recorded := recorded w @ ps @ [Done]\<rparr>))"

text \<open>\<^verbatim>\<open>xhr.onerror\<close>, lines 128 to 133.\<close>

definition onerror :: "string \<Rightarrow> 'e \<Rightarrow> ('a, 'pa, 'e) world \<Rightarrow> ('a, 'pa, 'e) world" where
  "onerror url event w =
    (let w1 = w\<lparr>numNodesLoading := numNodesLoading w - 1\<rparr>;
         w2 = w1\<lparr>console := console w1 @ [(''Potree: loading file failed.'', url, event)]\<rparr>
     in w2\<lparr>callbacks := callbacks w2 @ [None]\<rparr>)"

text \<open>
  \<^verbatim>\<open>POCLoader.load(url, callback)\<close>, lines 25 to 136: the request either delivers the
  document or fails with an event, and the matching handler runs.
\<close>

datatype ('a, 'e) response = Loaded "'a document" | Failed 'e

definition load ::
  "('a attribute_schema \<Rightarrow> 'pa) \<Rightarrow> string \<Rightarrow> ('a, 'e) response \<Rightarrow> ('a, 'pa, 'e) world \<Rightarrow>
     error + ('a, 'pa, 'e) world" where
  "load PA url r w =
    (case r of
       Loaded data \<Rightarrow> onload PA url data w
     | Failed event \<Rightarrow> Inr (onerror url event w))"

section \<open>Notions the properties are stated with\<close>

text \<open>
  \<^verbatim>\<open>a.add(b)\<close> and \<^verbatim>\<open>a.containsBox(b)\<close> of three.js, and the box a document declares by its
  six bounds.
\<close>

definition add :: "Vector3 \<Rightarrow> Vector3 \<Rightarrow> Vector3" where
  "add a b =
     \<lparr>vec_x = js_add (vec_x a) (vec_x b), vec_y = js_add (vec_y a) (vec_y b),
      vec_z = js_add (vec_z a) (vec_z b)\<rparr>"

definition containsBox :: "Box3 \<Rightarrow> Box3 \<Rightarrow> bool" where
  "containsBox a b \<longleftrightarrow>
     vec_x (box_min a) \<le> vec_x (box_min b) \<and> vec_x (box_max b) \<le> vec_x (box_max a) \<and>
     vec_y (box_min a) \<le> vec_y (box_min b) \<and> vec_y (box_max b) \<le> vec_y (box_max a) \<and>
     vec_z (box_min a) \<le> vec_z (box_min b) \<and> vec_z (box_max b) \<le> vec_z (box_max a)"

definition declared_box :: "bounds \<Rightarrow> Box3" where
  "declared_box b = new_Box3 (new_Vector3 (lx b) (ly b) (lz b)) (new_Vector3 (ux b) (uy b) (uz b))"

text \<open>
  A vector whose components are doubles, as every vector read from a JSON document is; and
  the pairs of vectors for which \<^verbatim>\<open>a.sub(b)\<close> has no rounding error on any component, the
  differences being in range.
\<close>

definition double_vector :: "Vector3 \<Rightarrow> bool" where
  "double_vector v \<longleftrightarrow> is_double (vec_x v) \<and> is_double (vec_y v) \<and> is_double (vec_z v)"

definition exact_sub :: "Vector3 \<Rightarrow> Vector3 \<Rightarrow> bool" where
  "exact_sub a b \<longleftrightarrow>
     js_sub (vec_x a) (vec_x b) = vec_x a - vec_x b \<and> in_range (vec_x a - vec_x b) \<and>
     js_sub (vec_y a) (vec_y b) = vec_y a - vec_y b \<and> in_range (vec_y a - vec_y b) \<and>
     js_sub (vec_z a) (vec_z b) = vec_z a - vec_z b \<and> in_range (vec_z a - vec_z b)"

text \<open>
  The hierarchy lists the loop accepts: the name of each entry after the first, without
  its last character, is \<^verbatim>\<open>'r'\<close> (the name under which the root is registered) or the name
  of an entry before it. \<open>known\<close> is the list of the names registered so far.
\<close>

fun parents_precede :: "string list \<Rightarrow> string list \<Rightarrow> bool" where
  "parents_precede known [] = True"
| "parents_precede known (n # ns) = (butlast n \<in> set known \<and> parents_precede (n # known) ns)"

text \<open>
  The condition in the words of the spec: every entry after the first has its parent, the
  name without its last character, among the names of the entries before it.
\<close>

definition every_parent_precedes :: "string list \<Rightarrow> bool" where
  "every_parent_precedes ns = (case ns of [] \<Rightarrow> True | n # rest \<Rightarrow> parents_precede [n] rest)"

text \<open>
  The final character of a name read as an octal digit, in the words of the spec.
\<close>

definition octal_digit :: "char \<Rightarrow> int option" where
  "octal_digit c =
     map_of [(CHR ''0'', 0), (CHR ''1'', 1), (CHR ''2'', 2), (CHR ''3'', 3),
             (CHR ''4'', 4), (CHR ''5'', 5), (CHR ''6'', 6), (CHR ''7'', 7)] c"

text \<open>
  The order of the phases as the spec lists them, and the phase lists that follow it.
\<close>

definition spec_rank :: "phase \<Rightarrow> nat" where
  "spec_rank p =
     (case p of Normalizing \<Rightarrow> 0 | TreeBuilding \<Rightarrow> 1 | DecoderSelecting \<Rightarrow> 2
      | RootLoadTriggered \<Rightarrow> 3 | Done \<Rightarrow> 4)"

definition in_spec_order :: "phase list \<Rightarrow> bool" where
  "in_spec_order ps \<longleftrightarrow> sorted (map spec_rank ps)"

text \<open>
  The invariant of the loop: the index \<open>nodes\<close> sends a name to the node built last under
  that name, every node of the store is indexed under its name, and the empty name is
  not indexed.
\<close>

definition tree_inv :: "tree \<Rightarrow> bool" where
  "tree_inv t \<longleftrightarrow>
     (\<forall>nm a. nodes t nm = Some a \<longrightarrow>
        a < length (objects t) \<and> node_name (objects t ! a) = nm \<and>
        (\<forall>j. a < j \<and> j < length (objects t) \<longrightarrow> node_name (objects t ! j) \<noteq> nm)) \<and>
     (\<forall>a<length (objects t). nodes t (node_name (objects t ! a)) \<noteq> None) \<and>
     nodes t [] = None"

text \<open>
  A later store extends an earlier one: the nodes of the earlier store are still there,
  with their fields unchanged but for the children.
\<close>

definition store_extends :: "PointCloudOctreeGeometryNode list \<Rightarrow> PointCloudOctreeGeometryNode list \<Rightarrow> bool" where
  "store_extends objs objs' \<longleftrightarrow>
     length objs \<le> length objs' \<and>
     (\<forall>i<length objs.
        node_name (objs' ! i) = node_name (objs ! i) \<and>
        node_index (objs' ! i) = node_index (objs ! i) \<and>
        node_boundingBox (objs' ! i) = node_boundingBox (objs ! i) \<and>
        node_level (objs' ! i) = node_level (objs ! i) \<and>
        node_numPoints (objs' ! i) = node_numPoints (objs ! i) \<and>
        node_spacing (objs' ! i) = node_spacing (objs ! i) \<and>
        node_hasChildren (objs' ! i) = node_hasChildren (objs ! i) \<and>
        node_parent (objs' ! i) = node_parent (objs ! i))"

text \<open>
  What the loop does for one entry \<open>e\<close>, read from a store in which the node built for it
  is at position \<open>a\<close>.
\<close>

definition entry_built :: "real \<Rightarrow> PointCloudOctreeGeometryNode list \<Rightarrow> nat \<Rightarrow> string \<times> real \<Rightarrow> bool" where
  "entry_built sp objs a e \<longleftrightarrow>
     fst e \<noteq> [] \<and>
     node_name (objs ! a) = fst e \<and>
     node_index (objs ! a) = parseInt (charAt (fst e) (int (length (fst e)) - 1)) \<and>
     node_level (objs ! a) = int (length (fst e)) - 1 \<and>
     node_numPoints (objs ! a) = snd e \<and>
     node_spacing (objs ! a) = js_div_by sp (Math_pow2 (int (length (fst e)) - 1)) \<and>
     (\<exists>p<a. node_parent (objs ! a) = Some p \<and>
        node_name (objs ! p) = butlast (fst e) \<and>
        (\<forall>j. p < j \<and> j < a \<longrightarrow> node_name (objs ! j) \<noteq> butlast (fst e)) \<and>
        node_boundingBox (objs ! a) =
          createChildAABB (node_boundingBox (objs ! p))
            (parseInt (charAt (fst e) (int (length (fst e)) - 1))))"

text \<open>
  The children of a store: a node with a parent has a name, its parent is called by that
  name without its last character, its index is that last character read as a number,
  and, when the index is a number, the parent has the node as its child at that index.
\<close>

definition children_inv :: "PointCloudOctreeGeometryNode list \<Rightarrow> bool" where
  "children_inv objs \<longleftrightarrow>
     (\<forall>i<length objs. \<forall>p. node_parent (objs ! i) = Some p \<longrightarrow>
        p < length objs \<and>
        node_name (objs ! i) \<noteq> [] \<and>
        node_name (objs ! p) = butlast (node_name (objs ! i)) \<and>
        node_index (objs ! i) = parseInt [last (node_name (objs ! i))] \<and>
        (node_index (objs ! i) \<noteq> None \<longrightarrow>
           node_children (objs ! p) (node_index (objs ! i)) = Some i))"

text \<open>
  Two documents: a legacy one with the hierarchy of the spec's example, and a current
  one with an absolute directory, a list of attributes and a tight box that is larger
  than the full box.
\<close>

definition example_document :: "string document" where
  "example_document =
    \<lparr>version = ''1.4'', octreeDir = ''data'', spacing = 1, hierarchyStepSize = 5,
     pointAttributes = Tag ''LAZ'',
     boundingBox = \<lparr>lx = 10, ly = 20, lz = 30, ux = 12, uy = 24, uz = 38\<rparr>,
     tightBoundingBox = None, projection = None, scale = 1 / 100,
     hierarchy = [(''r'', 100), (''r0'', 10), (''r01'', 3)]\<rparr>"

definition example_current :: "string document" where
  "example_current =
    \<lparr>version = ''1.7'', octreeDir = ''http://host/data'', spacing = 1, hierarchyStepSize = 5,
     pointAttributes = Attributes [''POSITION_CARTESIAN''],
     boundingBox = \<lparr>lx = 0, ly = 0, lz = 0, ux = 1, uy = 1, uz = 1\<rparr>,
     tightBoundingBox = Some \<lparr>lx = - 1, ly = - 1, lz = - 1, ux = 2, uy = 2, uz = 2\<rparr>,
     projection = None, scale = 1 / 100, hierarchy = []\<rparr>"

text \<open>
  Two legacy documents: one whose first entry is not called \<^verbatim>\<open>'r'\<close>, and one that lists the
  name \<^verbatim>\<open>'r0'\<close> twice.
\<close>

definition misnamed_root_document :: "string document" where
  "misnamed_root_document = example_document\<lparr>hierarchy := [(''root'', 100), (''root0'', 10)]\<rparr>"

definition duplicate_document :: "string document" where
  "duplicate_document =
     example_document\<lparr>hierarchy := [(''r'', 100), (''r0'', 10), (''r0'', 20), (''r00'', 3)]\<rparr>"

text \<open>
  A document whose bounding box goes from the double \<^verbatim>\<open>0.3\<close> to the double \<^verbatim>\<open>0.9\<close> on the x
  axis.
\<close>

definition rounding_document :: "string document" where
  "rounding_document =
    \<lparr>version = ''1.7'', octreeDir = ''data'', spacing = 1, hierarchyStepSize = 5,
     pointAttributes = Tag ''LAZ'',
     boundingBox = \<lparr>lx = 5404319552844595 / 2 ^ 54, ly = 0, lz = 0,
                    ux = 8106479329266893 / 2 ^ 53, uy = 1, uz = 1\<rparr>,
     tightBoundingBox = None, projection = None, scale = 1 / 100, hierarchy = []\<rparr>"

section \<open>Properties of the numbers\<close>

lemma bit_length_bounds:
  "0 < n \<Longrightarrow> 2 ^ (bit_length n - 1) \<le> n \<and> n < 2 ^ bit_length n"
proof (induction n rule: bit_length.induct)
  case (1 n)
  show ?case
  proof (cases "n div 2 = 0")
    case True
    with 1(2) have "n = 1" by (simp add: div_eq_0_iff) 
    then show ?thesis by (simp add: bit_length.simps [of "Suc 0"] bit_length.simps [of 0])
  next
    case False
    then have p: "0 < n div 2" by simp
    from 1(2) have n0: "n \<noteq> 0" by simp
    from 1(1) [OF n0 p] have l: "2 ^ (bit_length (n div 2) - 1) \<le> n div 2"
      and u: "n div 2 < 2 ^ bit_length (n div 2)" by simp_all
    have b: "bit_length n = Suc (bit_length (n div 2))"
      using n0 by (simp add: bit_length.simps [of n])
    have pos: "0 < bit_length (n div 2)"
      using p by (simp add: bit_length.simps [of "n div 2"])
    then have e: "(2::nat) ^ bit_length (n div 2) = 2 * 2 ^ (bit_length (n div 2) - 1)"
      by (cases "bit_length (n div 2)") simp_all
    have "2 ^ (bit_length n - 1) \<le> 2 * (n div 2)" using l b e by simp
    also have "\<dots> \<le> n" by simp
    finally have 1: "2 ^ (bit_length n - 1) \<le> n" .
    have "n < 2 * (n div 2) + 2" by presburger
    also have "\<dots> \<le> 2 * 2 ^ bit_length (n div 2)" using u by simp
    finally have "n < 2 ^ bit_length n" using b by simp
    with 1 show ?thesis by simp
  qed
qed

lemma bit_length_pos: "0 < n \<Longrightarrow> 0 < bit_length n"
  by (simp add: bit_length.simps [of n])

lemma powi_minus_nat: "(2::real) powi (- int k) = 1 / 2 ^ k"
  by (simp add: power_int_minus divide_inverse)

lemma binade_bounds:
  assumes "x \<noteq> 0"
  shows "2 powi binade x \<le> \<bar>x\<bar> \<and> \<bar>x\<bar> < 2 powi (binade x + 1)"
proof (cases "1 \<le> \<bar>x\<bar>")
  case True
  let ?n = "nat \<lfloor>\<bar>x\<bar>\<rfloor>"
  have n: "0 < ?n" using True by simp
  note b = bit_length_bounds [OF n]
  have bp: "0 < bit_length ?n" using n by (rule bit_length_pos)
  have e: "binade x = int (bit_length ?n - 1)" using True bp by (simp add: binade_def of_nat_diff)
  have e1: "binade x + 1 = int (bit_length ?n)" using True bp by (simp add: binade_def)
  from b have "2 ^ (bit_length ?n - 1) \<le> ?n" by (rule conjunct1)
  then have "real (2 ^ (bit_length ?n - 1)) \<le> real ?n" by (simp only: of_nat_le_iff)
  also have "real ?n = of_int \<lfloor>\<bar>x\<bar>\<rfloor>" by simp
  also have "\<dots> \<le> \<bar>x\<bar>" by simp
  finally have 1: "2 powi binade x \<le> \<bar>x\<bar>" unfolding e by (simp add: power_int_def)
  from b have "?n < 2 ^ bit_length ?n" by (rule conjunct2)
  then have "Suc ?n \<le> 2 ^ bit_length ?n" by (rule Suc_leI)
  then have "real (Suc ?n) \<le> real (2 ^ bit_length ?n)" by (simp only: of_nat_le_iff)
  moreover have "\<bar>x\<bar> < real (Suc ?n)"
  proof -
    have "\<bar>x\<bar> < of_int \<lfloor>\<bar>x\<bar>\<rfloor> + 1" by linarith
    then show ?thesis by (simp add: add.commute)
  qed
  ultimately have "\<bar>x\<bar> < 2 powi (binade x + 1)" unfolding e1 by (simp add: power_int_def)
  with 1 show ?thesis by simp
next
  case False
  let ?a = "\<bar>x\<bar>"
  have a: "0 < ?a" "?a < 1" using assms False by simp_all
  then have i: "1 < 1 / ?a" by simp
  let ?m = "nat (\<lceil>1 / ?a\<rceil> - 1)"
  have c: "2 \<le> \<lceil>1 / ?a\<rceil>" using i by linarith
  then have m: "0 < ?m" by simp
  note b = bit_length_bounds [OF m]
  let ?k = "bit_length ?m"
  have kp: "0 < ?k" using m by (rule bit_length_pos)
  have e: "binade x = - int ?k" using False by (simp add: binade_def)
  have "0 \<le> \<lceil>1 / ?a\<rceil> - 1" using c by linarith
  then have "real ?m = of_int (\<lceil>1 / ?a\<rceil> - 1)" by (rule of_nat_nat)
  then have rm: "real ?m = of_int \<lceil>1 / ?a\<rceil> - 1" by (simp only: of_int_diff of_int_1)
  have lo: "real ?m < 1 / ?a" unfolding rm by linarith
  have hi: "1 / ?a \<le> real ?m + 1" unfolding rm by linarith
  from b have "?m < 2 ^ ?k" by (rule conjunct2)
  then have "Suc ?m \<le> 2 ^ ?k" by (rule Suc_leI)
  then have "real (Suc ?m) \<le> real (2 ^ ?k)" by (simp only: of_nat_le_iff)
  with hi have "1 / ?a \<le> 2 ^ ?k" by simp
  then have "1 \<le> 2 ^ ?k * ?a" using a(1) by (simp add: field_simps)
  then have 1: "2 powi binade x \<le> ?a" unfolding e powi_minus_nat
    by (simp add: field_simps)
  from b have "2 ^ (?k - 1) \<le> ?m" by (rule conjunct1)
  then have "real (2 ^ (?k - 1)) \<le> real ?m" by (simp only: of_nat_le_iff)
  then have "(2::real) ^ (?k - 1) \<le> real ?m" by (simp only: of_nat_power of_nat_numeral)
  with lo have "2 ^ (?k - 1) < 1 / ?a" by linarith
  then have "2 ^ (?k - 1) * ?a < 1" using a(1) by (simp add: field_simps)
  moreover have "binade x + 1 = - int (?k - 1)" using e kp by (simp add: of_nat_diff)
  ultimately have "?a < 2 powi (binade x + 1)"
    by (simp add: powi_minus_nat field_simps)
  with 1 show ?thesis by simp
qed

lemma binade_mono:
  assumes "0 < x" "x \<le> y"
  shows "binade x \<le> binade y"
proof -
  have "2 powi binade x \<le> \<bar>x\<bar>" using binade_bounds [of x] assms by simp
  also have "\<dots> \<le> \<bar>y\<bar>" using assms by simp
  also have "\<dots> < 2 powi (binade y + 1)" using binade_bounds [of y] assms by simp
  finally have "(2::real) powi binade x < 2 powi (binade y + 1)" .
  have "binade x < binade y + 1"
  proof (rule ccontr)
    assume "\<not> binade x < binade y + 1"
    then have "binade y + 1 \<le> binade x" by simp
    then have "(2::real) powi (binade y + 1) \<le> 2 powi binade x"
      by (rule power_int_increasing) simp
    with \<open>(2::real) powi binade x < 2 powi (binade y + 1)\<close> show False by simp
  qed
  then show ?thesis by simp
qed

lemma binade_minus: "binade (- x) = binade x"
  by (simp add: binade_def)

lemma round_half_even_of_int: "round_half_even (of_int n) = n"
  by (simp add: round_half_even_def)

lemma round_half_even_bounds:
  "\<lfloor>x\<rfloor> \<le> round_half_even x \<and> round_half_even x \<le> \<lfloor>x\<rfloor> + 1"
  by (simp add: round_half_even_def Let_def)

lemma round_half_even_mono:
  assumes "x \<le> y"
  shows "round_half_even x \<le> round_half_even y"
proof (cases "\<lfloor>x\<rfloor> = \<lfloor>y\<rfloor>")
  case True
  with assms show ?thesis by (auto simp: round_half_even_def Let_def)
next
  case False
  moreover have "\<lfloor>x\<rfloor> \<le> \<lfloor>y\<rfloor>" using assms by (rule floor_mono)
  ultimately have "\<lfloor>x\<rfloor> + 1 \<le> \<lfloor>y\<rfloor>" by simp
  with round_half_even_bounds [of x] round_half_even_bounds [of y] show ?thesis by linarith
qed

lemma round_half_even_minus: "round_half_even (- x) = - round_half_even x"
proof (cases "x = of_int \<lfloor>x\<rfloor>")
  case True
  then obtain n where "x = of_int n" by blast
  then have "- x = of_int (- n)" by simp
  then show ?thesis using \<open>x = of_int n\<close> by (simp only: round_half_even_of_int)
next
  case False
  then have "of_int \<lfloor>x\<rfloor> \<noteq> x" by (rule not_sym)
  then have lt: "of_int \<lfloor>x\<rfloor> < x"
    using of_int_floor_le [of x] by (rule order.not_eq_order_implies_strict)
  have "x < of_int \<lfloor>x\<rfloor> + 1" by linarith
  have c: "(of_int (- \<lfloor>x\<rfloor> - 1) :: real) = - of_int \<lfloor>x\<rfloor> - 1" by simp
  have a: "of_int (- \<lfloor>x\<rfloor> - 1) \<le> - x"
    unfolding c using \<open>x < of_int \<lfloor>x\<rfloor> + 1\<close> by linarith
  have b: "- x < of_int (- \<lfloor>x\<rfloor> - 1) + 1" unfolding c using lt by linarith
  from a b have f: "\<lfloor>- x\<rfloor> = - \<lfloor>x\<rfloor> - 1" by (rule floor_unique)
  show ?thesis
    unfolding round_half_even_def Let_def f by auto
qed

lemma round_double_minus: "round_double (- x) = - round_double x"
  by (simp add: round_double_def binade_minus Let_def round_half_even_minus)

lemma round_double_nonneg:
  assumes "0 \<le> x"
  shows "0 \<le> round_double x"
proof (cases "x = 0")
  case True
  then show ?thesis by (simp add: round_double_def)
next
  case False
  let ?q = "max (binade x - 52) (- 1074)"
  have "0 \<le> x / 2 powi ?q" using assms by simp
  then have "round_half_even 0 \<le> round_half_even (x / 2 powi ?q)" by (rule round_half_even_mono)
  then have "0 \<le> round_half_even (x / 2 powi ?q)" using round_half_even_of_int [of 0] by simp
  then show ?thesis using False by (simp add: round_double_def Let_def)
qed

lemma powi_nat: "0 \<le> k \<Longrightarrow> (2::real) powi k = of_int (2 ^ nat k)"
  by (simp add: power_int_def)

lemma round_double_mono_pos:
  assumes "0 < x" "x \<le> y"
  shows "round_double x \<le> round_double y"
proof -
  let ?qx = "max (binade x - 52) (- 1074)"
  let ?qy = "max (binade y - 52) (- 1074)"
  have y: "0 < y" using assms by simp
  have rx: "round_double x = of_int (round_half_even (x / 2 powi ?qx)) * 2 powi ?qx"
    using assms(1) by (simp add: round_double_def Let_def)
  have ry: "round_double y = of_int (round_half_even (y / 2 powi ?qy)) * 2 powi ?qy"
    using y by (simp add: round_double_def Let_def)
  have le: "binade x \<le> binade y" using assms by (rule binade_mono)
  show ?thesis
  proof (cases "?qx = ?qy")
    case True
    have "x / 2 powi ?qy \<le> y / 2 powi ?qy" using assms(2) by (simp add: divide_right_mono)
    then have "round_half_even (x / 2 powi ?qy) \<le> round_half_even (y / 2 powi ?qy)"
      by (rule round_half_even_mono)
    then show ?thesis unfolding rx ry True by simp
  next
    case False
    with le have qy: "?qy = binade y - 52" and lt: "binade x < binade y" and qlt: "?qx < ?qy"
      by (auto simp: max_def split: if_splits)
    have qxl: "?qx \<le> binade y" using lt qlt qy by simp
    let ?e = "binade y"
    have "2 powi ?e \<le> y" using binade_bounds [of y] y by simp
    then have "2 powi ?e / 2 powi ?qy \<le> y / 2 powi ?qy" by (simp add: divide_right_mono)
    moreover have "(2::real) powi ?e / 2 powi ?qy = of_int (2 ^ 52)"
      unfolding qy by (simp add: power_int_diff [symmetric])
    ultimately have "round_half_even (of_int (2 ^ 52)) \<le> round_half_even (y / 2 powi ?qy)"
      using round_half_even_mono by simp
    then have "2 ^ 52 \<le> round_half_even (y / 2 powi ?qy)"
      by (simp only: round_half_even_of_int)
    then have "(2::real) ^ 52 \<le> of_int (round_half_even (y / 2 powi ?qy))"
      by (metis of_int_le_iff of_int_numeral of_int_power)
    then have "2 ^ 52 * 2 powi ?qy \<le> round_double y"
      unfolding ry by (simp add: mult_right_mono)
    moreover have "(2::real) ^ 52 * 2 powi ?qy = 2 powi ?e"
      unfolding qy by (simp add: power_int_diff)
    ultimately have 1: "2 powi ?e \<le> round_double y" by simp
    have "x < 2 powi (binade x + 1)" using binade_bounds [of x] assms(1) by simp
    also have "\<dots> \<le> 2 powi ?e" using lt by (intro power_int_increasing) simp_all
    finally have "x / 2 powi ?qx \<le> 2 powi ?e / 2 powi ?qx" by (simp add: divide_right_mono)
    moreover have "(2::real) powi ?e / 2 powi ?qx = of_int (2 ^ nat (?e - ?qx))"
      using qxl by (simp add: power_int_diff [symmetric] powi_nat del: of_int_power)
    ultimately have "round_half_even (x / 2 powi ?qx) \<le> round_half_even (of_int (2 ^ nat (?e - ?qx)))"
      using round_half_even_mono by simp
    then have "round_half_even (x / 2 powi ?qx) \<le> 2 ^ nat (?e - ?qx)"
      by (simp only: round_half_even_of_int)
    then have "(of_int (round_half_even (x / 2 powi ?qx)) :: real) \<le> of_int (2 ^ nat (?e - ?qx))"
      by (simp only: of_int_le_iff)
    also have "(of_int (2 ^ nat (?e - ?qx)) :: real) = 2 powi (?e - ?qx)"
      using qxl by (simp add: powi_nat del: of_int_power)
    finally have "round_double x \<le> 2 powi (?e - ?qx) * 2 powi ?qx"
      unfolding rx by (simp add: mult_right_mono)
    also have "(2::real) powi (?e - ?qx) * 2 powi ?qx = 2 powi ?e"
      by (simp add: power_int_add [symmetric])
    finally show ?thesis using 1 by simp
  qed
qed

lemma round_double_0: "round_double 0 = 0"
  by (simp add: round_double_def)

lemma round_double_mono:
  assumes "x \<le> y"
  shows "round_double x \<le> round_double y"
proof -
  consider "0 < x" | "x = 0" | "x < 0" "0 \<le> y" | "x < 0" "y < 0" by linarith
  then show ?thesis
  proof cases
    case 1
    then show ?thesis using assms by (rule round_double_mono_pos)
  next
    case 2
    then show ?thesis using assms round_double_nonneg [of y] by (simp add: round_double_0)
  next
    case 3
    have "0 \<le> round_double (- x)" using 3(1) by (simp add: round_double_nonneg)
    then have "round_double x \<le> 0" by (simp add: round_double_minus)
    also have "0 \<le> round_double y" using 3(2) by (rule round_double_nonneg)
    finally show ?thesis .
  next
    case 4
    then have "0 < - y" "- y \<le> - x" using assms by simp_all
    then have "round_double (- y) \<le> round_double (- x)" by (rule round_double_mono_pos)
    then show ?thesis by (simp add: round_double_minus)
  qed
qed

lemma powi_less_cancel:
  assumes "(2::real) powi a < 2 powi b"
  shows "a < b"
proof (rule ccontr)
  assume "\<not> a < b"
  then have "b \<le> a" by simp
  then have "(2::real) powi b \<le> 2 powi a" by (rule power_int_increasing) simp
  with assms show False by simp
qed

lemma round_double_exact:
  assumes "\<bar>m\<bar> < 2 ^ 53" "- 1074 \<le> q"
  shows "round_double (of_int m * 2 powi q) = of_int m * 2 powi q"
proof (cases "m = 0")
  case True
  then show ?thesis by (simp add: round_double_0)
next
  case False
  let ?x = "of_int m * 2 powi q :: real"
  define q' where "q' = max (binade ?x - 52) (- 1074)"
  have x0: "?x \<noteq> 0" using False by simp
  have ax: "\<bar>?x\<bar> = of_int \<bar>m\<bar> * 2 powi q" by (simp add: abs_mult)
  have "(of_int \<bar>m\<bar> :: real) < of_int (2 ^ 53)" using assms(1) by (simp only: of_int_less_iff)
  then have "\<bar>?x\<bar> < of_int (2 ^ 53) * 2 powi q" unfolding ax by (simp add: mult_strict_right_mono)
  also have "(of_int (2 ^ 53) :: real) * 2 powi q = 2 powi (53 + q)" by (simp add: power_int_add)
  finally have ub: "\<bar>?x\<bar> < 2 powi (53 + q)" .
  have "2 powi binade ?x \<le> \<bar>?x\<bar>" using binade_bounds [OF x0] by simp
  with ub have "(2::real) powi binade ?x < 2 powi (53 + q)" by simp
  then have "binade ?x < 53 + q" by (rule powi_less_cancel)
  with assms(2) have le: "q' \<le> q" by (simp add: q'_def)
  have "?x / 2 powi q' = of_int m * 2 powi (q - q')" by (simp add: power_int_diff)
  also have "\<dots> = of_int (m * 2 ^ nat (q - q'))" using le by (simp add: powi_nat)
  finally have "round_half_even (?x / 2 powi q') = m * 2 ^ nat (q - q')"
    by (simp only: round_half_even_of_int)
  then have "round_double ?x = of_int (m * 2 ^ nat (q - q')) * 2 powi q'"
    using x0 by (simp add: round_double_def Let_def q'_def)
  also have "\<dots> = of_int m * (2 powi (q - q') * 2 powi q')" using le by (simp add: powi_nat)
  also have "\<dots> = ?x" by (simp add: power_int_add [symmetric])
  finally show ?thesis .
qed

lemma round_double_of_int: "\<bar>m\<bar> < 2 ^ 53 \<Longrightarrow> round_double (of_int m) = of_int m"
  using round_double_exact [of m 0] by simp

lemma round_double_numeral [simp]:
  "numeral n < (2::int) ^ 53 \<Longrightarrow> round_double (numeral n) = numeral n"
  using round_double_of_int [of "numeral n"] by simp

lemma round_double_neg_numeral [simp]:
  "numeral n < (2::int) ^ 53 \<Longrightarrow> round_double (- numeral n) = - numeral n"
  using round_double_of_int [of "- numeral n"] by simp

lemma round_double_1 [simp]: "round_double 1 = 1"
  using round_double_of_int [of 1] by simp

lemma round_double_neg_1 [simp]: "round_double (- 1) = - 1"
  using round_double_of_int [of "- 1"] by simp

lemma round_double_ratio:
  "\<bar>m\<bar> < 2 ^ 53 \<Longrightarrow> k \<le> 1074 \<Longrightarrow> round_double (of_int m / 2 ^ k) = of_int m / 2 ^ k"
  using round_double_exact [of m "- int k"] by (simp add: powi_minus_nat)


lemma is_double_ratio: "\<bar>m\<bar> < 2 ^ 53 \<Longrightarrow> k \<le> 1074 \<Longrightarrow> is_double (of_int m / 2 ^ k)"
  by (simp add: is_double_def round_double_ratio)

lemma round_double_pow2: "- 1074 \<le> n \<Longrightarrow> round_double (2 powi n) = 2 powi n"
  using round_double_exact [of 1 n] by simp

lemma binade_unique:
  assumes "2 powi e \<le> \<bar>x\<bar>" "\<bar>x\<bar> < 2 powi (e + 1)"
  shows "binade x = e"
proof -
  have p: "(0::real) < 2 powi e" by (rule zero_less_power_int) simp
  have x0: "x \<noteq> 0"
  proof
    assume "x = 0"
    with assms(1) have "(2::real) powi e \<le> 0" by simp
    with p show False by linarith
  qed
  note b = binade_bounds [OF x0]
  have "(2::real) powi e < 2 powi (binade x + 1)" using assms(1) b by linarith
  then have 1: "e < binade x + 1" by (rule powi_less_cancel)
  have "(2::real) powi binade x < 2 powi (e + 1)" using assms(2) b by linarith
  then have "binade x < e + 1" by (rule powi_less_cancel)
  with 1 show ?thesis by simp
qed

lemma round_double_eval:
  assumes "2 powi e \<le> \<bar>x\<bar>" "\<bar>x\<bar> < 2 powi (e + 1)" "q = max (e - 52) (- 1074)"
  shows "round_double x = of_int (round_half_even (x / 2 powi q)) * 2 powi q"
proof -
  have p: "(0::real) < 2 powi e" by (rule zero_less_power_int) simp
  have x0: "x \<noteq> 0"
  proof
    assume "x = 0"
    with assms(1) have "(2::real) powi e \<le> 0" by simp
    with p show False by linarith
  qed
  then show ?thesis
    unfolding round_double_def binade_unique [OF assms(1,2)] assms(3) by (simp add: Let_def)
qed

lemma in_range_small: "\<bar>x\<bar> \<le> 2 ^ 53 \<Longrightarrow> in_range x"
proof -
  have "(2::real) ^ 53 \<le> max_double" by (simp add: max_double_def)
  then show "\<bar>x\<bar> \<le> 2 ^ 53 \<Longrightarrow> in_range x" unfolding in_range_def by linarith
qed

lemma js_sub_self: "js_sub a a = 0"
  by (simp add: js_sub_def round_double_0)

section \<open>Properties of createChildAABB\<close>


lemma bitand_pos_iff: "bitand (Some i) (2 ^ n) > 0 \<longleftrightarrow> bit i n"
proof -
  have "i AND 2 ^ n \<ge> 0" by simp
  moreover have "i AND 2 ^ n = 0 \<longleftrightarrow> \<not> bit i n" by (rule and_exp_eq_0_iff_not_bit)
  ultimately show ?thesis unfolding bitand_def by (simp add: less_le)
qed

lemma bitand_1: "bitand (Some i) 1 > 0 \<longleftrightarrow> bit i 0"
  using bitand_pos_iff [of i 0] by simp

lemma bitand_2: "bitand (Some i) 2 > 0 \<longleftrightarrow> bit i 1"
  using bitand_pos_iff [of i 1] by simp

lemma bitand_4: "bitand (Some i) 4 > 0 \<longleftrightarrow> bit i 2"
  using bitand_pos_iff [of i 2] by simp

lemma bitand_None: "bitand None m = 0"
  by (simp add: bitand_def)

lemma createChildAABB_Some:
  "createChildAABB P (Some i) =
     \<lparr>box_min = \<lparr>vec_x = (if bit i 2 then upper_half (vec_x (box_min P)) (vec_x (box_max P)) else vec_x (box_min P)),
                  vec_y = (if bit i 1 then upper_half (vec_y (box_min P)) (vec_y (box_max P)) else vec_y (box_min P)),
                  vec_z = (if bit i 0 then upper_half (vec_z (box_min P)) (vec_z (box_max P)) else vec_z (box_min P))\<rparr>,
      box_max = \<lparr>vec_x = (if bit i 2 then vec_x (box_max P) else lower_half (vec_x (box_min P)) (vec_x (box_max P))),
                  vec_y = (if bit i 1 then vec_y (box_max P) else lower_half (vec_y (box_min P)) (vec_y (box_max P))),
                  vec_z = (if bit i 0 then vec_z (box_max P) else lower_half (vec_z (box_min P)) (vec_z (box_max P)))\<rparr>\<rparr>"
  by (simp add: createChildAABB_def Let_def new_Box3_def subVectors_def bitand_1 bitand_2 bitand_4
      lower_half_def upper_half_def)

lemma createChildAABB_NaN: "createChildAABB P None = createChildAABB P (Some 0)"
  by (simp add: createChildAABB_def bitand_def)

lemma createChildAABB_mod_8: "createChildAABB P (Some i) = createChildAABB P (Some (i mod 8))"
proof -
  have "i mod 8 = take_bit 3 i" by (simp add: take_bit_eq_mod)
  then have "bit (i mod 8) n = bit i n" if "n < 3" for n
    using that by (simp add: bit_take_bit_iff)
  then have "bit (i mod 8) 0 = bit i 0" "bit (i mod 8) 1 = bit i 1" "bit (i mod 8) 2 = bit i 2"
    by simp_all
  then show ?thesis unfolding createChildAABB_Some by simp
qed













lemma createChildAABB_store_frame:
  assumes "min_ref aabb < length h" "max_ref aabb < length h"
    and "createChildAABB_store h aabb index = (h', r)"
  shows "length h' = length h + 3 \<and> min_ref r = length h \<and> max_ref r = length h + 1 \<and>
         take (length h) h' = h"
  using assms
  by (auto simp: createChildAABB_store_def clone_at_def subVectors_at_def Let_def split: if_splits)

lemma createChildAABB_store_value:
  assumes "min_ref aabb < length h" "max_ref aabb < length h"
    and "createChildAABB_store h aabb index = (h', r)"
  shows "read_box h' r = createChildAABB (read_box h aabb) index"
  using assms
  by (auto simp: createChildAABB_store_def clone_at_def subVectors_at_def Let_def read_box_def
      createChildAABB_def new_Box3_def nth_append split: if_splits)

text \<open>
  Claim C10. \<open>createChildAABB\<close> does not change its arguments: every vector object that
  existed before the call, the parent's \<open>min\<close> and \<open>max\<close> among them, has the same
  components afterwards; the corners of the returned box are two distinct objects
  allocated by the call; and the returned box holds the value \<open>createChildAABB\<close> computes
  from the parent's box.
\<close>

theorem createChildAABB_store_leaves_arguments:
  assumes "min_ref aabb < length h" "max_ref aabb < length h"
    and "createChildAABB_store h aabb index = (h', r)"
  shows "(\<forall>a<length h. h' ! a = h ! a) \<and>
         read_box h' aabb = read_box h aabb \<and>
         length h \<le> min_ref r \<and> min_ref r < length h' \<and>
         length h \<le> max_ref r \<and> max_ref r < length h' \<and>
         min_ref r \<noteq> max_ref r \<and>
         read_box h' r = createChildAABB (read_box h aabb) index"
proof -
  note f = createChildAABB_store_frame [OF assms]
  have old: "h' ! a = h ! a" if "a < length h" for a
  proof -
    have "take (length h) h' ! a = h' ! a" using that by simp
    with f show ?thesis by simp
  qed
  have "read_box h' aabb = read_box h aabb"
    using assms(1,2) old by (simp add: read_box_def)
  moreover have "read_box h' r = createChildAABB (read_box h aabb) index"
    by (rule createChildAABB_store_value [OF assms])
  ultimately show ?thesis using f old by simp
qed

theorem createChildAABB_store_leaves_arguments_witness:
  "createChildAABB_store [new_Vector3 0 0 0, new_Vector3 2 4 8] \<lparr>min_ref = 0, max_ref = 1\<rparr> (Some 5) =
     ([new_Vector3 0 0 0, new_Vector3 2 4 8, new_Vector3 1 0 4, new_Vector3 2 2 8, new_Vector3 2 4 8],
      \<lparr>min_ref = 2, max_ref = 3\<rparr>) \<and>
   read_box [new_Vector3 0 0 0, new_Vector3 2 4 8, new_Vector3 1 0 4, new_Vector3 2 2 8, new_Vector3 2 4 8]
     \<lparr>min_ref = 0, max_ref = 1\<rparr> =
   read_box [new_Vector3 0 0 0, new_Vector3 2 4 8] \<lparr>min_ref = 0, max_ref = 1\<rparr> \<and>
   read_box [new_Vector3 0 0 0, new_Vector3 2 4 8, new_Vector3 1 0 4, new_Vector3 2 2 8, new_Vector3 2 4 8]
     \<lparr>min_ref = 2, max_ref = 3\<rparr> =
   createChildAABB (read_box [new_Vector3 0 0 0, new_Vector3 2 4 8] \<lparr>min_ref = 0, max_ref = 1\<rparr>) (Some 5)"
proof -
  let ?h = "[new_Vector3 0 0 0, new_Vector3 2 4 8]"
  let ?b = "\<lparr>min_ref = 0, max_ref = 1\<rparr>"
  have e: "createChildAABB_store ?h ?b (Some 5) =
     ([new_Vector3 0 0 0, new_Vector3 2 4 8, new_Vector3 1 0 4, new_Vector3 2 2 8, new_Vector3 2 4 8],
      \<lparr>min_ref = 2, max_ref = 3\<rparr>)"
    by (simp add: createChildAABB_store_def clone_at_def subVectors_at_def subVectors_def
        new_Vector3_def bitand_def Let_def js_add_def js_sub_def js_div_def)
  have "min_ref ?b < length ?h" "max_ref ?b < length ?h" by simp_all
  from createChildAABB_store_leaves_arguments [OF this e] e show ?thesis by simp
qed

section \<open>Properties of the loader\<close>

lemma indexOf_ge: "- 1 \<le> indexOf s t"
  by (induction s) (auto simp: Let_def)

lemma indexOf_0_iff: "indexOf s t = 0 \<longleftrightarrow> prefix t s"
proof (cases s)
  case Nil
  then show ?thesis by auto
next
  case (Cons c cs)
  have "- 1 \<le> indexOf cs t" by (rule indexOf_ge)
  then show ?thesis using Cons by (auto simp: Let_def)
qed

lemma substring_butlast: "substring s 0 (int (length s) - 1) = butlast s"
proof (cases "s = []")
  case True
  then show ?thesis by (simp add: substring_def)
next
  case False
  then have "nat (int (length s) - 1) = length s - 1" by (simp add: nat_diff_distrib')
  with False show ?thesis
    by (simp add: substring_def Let_def butlast_conv_take max_def min_def)
qed

lemma charAt_last: "s \<noteq> [] \<Longrightarrow> charAt s (int (length s) - 1) = [last s]"
  by (auto simp: charAt_def last_conv_nth nat_diff_distrib')

lemma onload_pco_Inr:
  assumes "onload_pco PA url data = Inr (ps, pco)"
  shows "\<exists>v n t.
    new_Version (version data) = Some v \<and>
    root_numPoints v data = Inr n \<and>
    (if upTo v (1, 4)
      then load_hierarchy (spacing data) (drop 1 (hierarchy data))
             (load_root data (fst (normalize_boxes (boundingBox data) (tightBoundingBox data))) n)
      else Inr (load_root data (fst (normalize_boxes (boundingBox data) (tightBoundingBox data))) n)) = Inr t \<and>
    ps = phases t \<and>
    pco = \<lparr>pco_url = url,
            pco_octreeDir = (if indexOf (octreeDir data) ''http'' = 0
                    then octreeDir data
                    else url @ ''/../'' @ octreeDir data),
            pco_spacing = spacing data,
            pco_hierarchyStepSize = hierarchyStepSize data,
            pco_pointAttributes = snd (select_loader PA data (fst (normalize_boxes (boundingBox data) (tightBoundingBox data)))),
            pco_projection = projection data,
            pco_boundingBox = fst (normalize_boxes (boundingBox data) (tightBoundingBox data)),
            pco_tightBoundingBox = fst (snd (normalize_boxes (boundingBox data) (tightBoundingBox data))),
            pco_offset = snd (snd (normalize_boxes (boundingBox data) (tightBoundingBox data))),
            pco_loader = fst (select_loader PA data (fst (normalize_boxes (boundingBox data) (tightBoundingBox data)))),
            pco_root = 0, pco_nodes = nodes t, pco_objects = objects t\<rparr>"
proof -
  obtain bbox tbox offset where nb:
    "normalize_boxes (boundingBox data) (tightBoundingBox data) = (bbox, tbox, offset)"
    by (cases "normalize_boxes (boundingBox data) (tightBoundingBox data)") auto
  obtain ldr attrs where sl: "select_loader PA data bbox = (ldr, attrs)"
    by (cases "select_loader PA data bbox") auto
  from assms obtain v where v: "new_Version (version data) = Some v"
    by (auto simp: onload_pco_def split: option.splits)
  from assms v nb sl obtain n where n: "root_numPoints v data = Inr n"
    by (auto simp: onload_pco_def split: sum.splits)
  let ?r = "if upTo v (1, 4)
      then load_hierarchy (spacing data) (drop 1 (hierarchy data)) (load_root data bbox n)
      else Inr (load_root data bbox n)"
  from assms v nb sl n obtain t where t: "?r = Inr t"
    by (cases ?r) (simp_all add: onload_pco_def)
  from assms v nb sl n t show ?thesis
    by (auto simp: onload_pco_def split: if_splits)
qed


lemma new_Version_1_4: "new_Version ''1.4'' = Some \<lparr>versionMajor = 1, versionMinor = 4\<rparr>"
  by (simp add: new_Version_def parse_decimal_def is_digit_def digit_value_def)

lemma new_Version_1_7: "new_Version ''1.7'' = Some \<lparr>versionMajor = 1, versionMinor = 7\<rparr>"
  by (simp add: new_Version_def parse_decimal_def is_digit_def digit_value_def)

lemma example_document_loads:
  "\<exists>ps pco. onload_pco PA ''http://host/cloud.json'' example_document = Inr (ps, pco)"
  by (simp add: onload_pco_def example_document_def new_Version_1_4 upTo_def root_numPoints_def
     hierarchy_entry_def substring_def charAt_def load_root_def Let_def split: prod.splits)

lemma example_current_loads:
  "\<exists>ps pco. onload_pco PA ''http://host/cloud.json'' example_current = Inr (ps, pco)"
  by (simp add: onload_pco_def example_current_def new_Version_1_7 upTo_def root_numPoints_def
     Let_def split: prod.splits)

text \<open>
  Claim C7. If \<open>octreeDir\<close> starts with \<^verbatim>\<open>http\<close>, the descriptor's directory is \<open>octreeDir\<close>
  as it stands; otherwise it is the string \<open>url @ ''/../'' @ octreeDir\<close>, not resolved.
\<close>

theorem octreeDir_verbatim_or_joined:
  assumes "onload_pco PA url data = Inr (ps, pco)"
  shows "(prefix ''http'' (octreeDir data) \<longrightarrow> pco_octreeDir pco = octreeDir data) \<and>
         (\<not> prefix ''http'' (octreeDir data) \<longrightarrow> pco_octreeDir pco = url @ ''/../'' @ octreeDir data)"
proof -
  from onload_pco_Inr [OF assms]
  have "pco_octreeDir pco =
      (if indexOf (octreeDir data) ''http'' = 0 then octreeDir data
       else url @ ''/../'' @ octreeDir data)"
    by auto
  then show ?thesis by (simp add: indexOf_0_iff)
qed

theorem octreeDir_verbatim_or_joined_witness:
  "(\<exists>ps pco. onload_pco (\<lambda>a. a) ''http://host/cloud.json'' example_document = Inr (ps, pco) \<and>
      pco_octreeDir pco = ''http://host/cloud.json/../data'') \<and>
   (\<exists>ps pco. onload_pco (\<lambda>a. a) ''http://host/cloud.json'' example_current = Inr (ps, pco) \<and>
      pco_octreeDir pco = ''http://host/data'')"
proof -
  obtain ps pco where l: "onload_pco (\<lambda>a. a) ''http://host/cloud.json'' example_document = Inr (ps, pco)"
    using example_document_loads by blast
  have "pco_octreeDir pco = ''http://host/cloud.json/../data''"
    using octreeDir_verbatim_or_joined [OF l] by (simp add: example_document_def)
  moreover
  obtain ps' pco' where l': "onload_pco (\<lambda>a. a) ''http://host/cloud.json'' example_current = Inr (ps', pco')"
    using example_current_loads by blast
  have "pco_octreeDir pco' = ''http://host/data''"
    using octreeDir_verbatim_or_joined [OF l'] by (simp add: example_current_def)
  ultimately show ?thesis using l l' by blast
qed

lemma normalize_boxes_store_value:
  assumes "normalize_boxes_store h bb tbb = (h', b, tb, off)"
  shows "(read_box h' b, read_box h' tb, h' ! off) = normalize_boxes bb tbb \<and>
         take (length h) h' = h"
  using assms
  by (auto simp: normalize_boxes_store_def alloc_def clone_at_def normalize_boxes_def Let_def
      read_box_def new_Box3_def nth_append split: option.splits)

lemma normalize_boxes_eq:
  "normalize_boxes bb tbb =
     (\<lparr>box_min = sub (box_min (declared_box bb)) (box_min (declared_box bb)),
       box_max = sub (box_max (declared_box bb)) (box_min (declared_box bb))\<rparr>,
      \<lparr>box_min = sub (box_min (declared_box (case tbb of None \<Rightarrow> bb | Some t \<Rightarrow> t))) (box_min (declared_box bb)),
       box_max = sub (box_max (declared_box (case tbb of None \<Rightarrow> bb | Some t \<Rightarrow> t))) (box_min (declared_box bb))\<rparr>,
      box_min (declared_box bb))"
  by (simp add: normalize_boxes_def declared_box_def new_Box3_def Let_def split: option.splits)

lemma add_sub:
  assumes "double_vector a" "exact_sub a b"
  shows "add (sub a b) b = a"
  using assms by (simp add: add_def sub_def double_vector_def exact_sub_def js_add_def is_double_def)

lemma sub_self: "sub a a = new_Vector3 0 0 0"
  by (simp add: sub_def new_Vector3_def js_sub_self)

lemma add_zero:
  assumes "double_vector a"
  shows "add (new_Vector3 0 0 0) a = a"
  using assms by (simp add: add_def new_Vector3_def double_vector_def js_add_def is_double_def)

text \<open>
  Claim C3, as the code has it. The loader sets \<open>offset\<close> to the minimum corner of the
  declared bounding box \<open>B\<close>; the descriptor's \<open>boundingBox\<close> is \<open>B\<close> with \<open>offset\<close> subtracted
  from both corners, and its \<open>tightBoundingBox\<close> is the declared tight box (\<open>B\<close> when none
  is declared) with \<open>offset\<close> subtracted, each difference rounded to a double. The
  minimum corner of the \<open>boundingBox\<close> is the zero vector, and adding \<open>offset\<close> to it gives
  the declared minimum back. For the other corners, adding \<open>offset\<close> gives the declared
  corner back when the subtraction had no rounding error and its result is in range
  (\<open>exact_sub\<close>); in general it does not (see the counterexample below). The declared
  bounds are doubles (\<open>double_vector\<close>).
\<close>

theorem normalization_round_trip:
  assumes "onload_pco PA url data = Inr (ps, pco)"
    and "B = declared_box (boundingBox data)"
    and "T = declared_box (case tightBoundingBox data of None \<Rightarrow> boundingBox data | Some t \<Rightarrow> t)"
  shows "pco_offset pco = box_min B \<and>
         pco_boundingBox pco =
           \<lparr>box_min = sub (box_min B) (pco_offset pco), box_max = sub (box_max B) (pco_offset pco)\<rparr> \<and>
         pco_tightBoundingBox pco =
           \<lparr>box_min = sub (box_min T) (pco_offset pco), box_max = sub (box_max T) (pco_offset pco)\<rparr> \<and>
         box_min (pco_boundingBox pco) = new_Vector3 0 0 0 \<and>
         (double_vector (box_min B) \<longrightarrow>
            add (box_min (pco_boundingBox pco)) (pco_offset pco) = box_min B) \<and>
         (double_vector (box_max B) \<and> exact_sub (box_max B) (box_min B) \<longrightarrow>
            add (box_max (pco_boundingBox pco)) (pco_offset pco) = box_max B) \<and>
         (double_vector (box_min T) \<and> exact_sub (box_min T) (box_min B) \<longrightarrow>
            add (box_min (pco_tightBoundingBox pco)) (pco_offset pco) = box_min T) \<and>
         (double_vector (box_max T) \<and> exact_sub (box_max T) (box_min B) \<longrightarrow>
            add (box_max (pco_tightBoundingBox pco)) (pco_offset pco) = box_max T)"
proof -
  from onload_pco_Inr [OF assms(1)]
  have "pco_boundingBox pco = fst (normalize_boxes (boundingBox data) (tightBoundingBox data))"
    and "pco_tightBoundingBox pco = fst (snd (normalize_boxes (boundingBox data) (tightBoundingBox data)))"
    and "pco_offset pco = snd (snd (normalize_boxes (boundingBox data) (tightBoundingBox data)))"
    by auto
  then show ?thesis
    unfolding normalize_boxes_eq assms(2,3) by (simp add: add_sub sub_self add_zero)
qed

theorem normalization_round_trip_witness:
  "\<exists>ps pco. onload_pco (\<lambda>a. a) ''http://host/cloud.json'' example_document = Inr (ps, pco) \<and>
     pco_offset pco = new_Vector3 10 20 30 \<and>
     pco_boundingBox pco = new_Box3 (new_Vector3 0 0 0) (new_Vector3 2 4 8) \<and>
     pco_tightBoundingBox pco = new_Box3 (new_Vector3 0 0 0) (new_Vector3 2 4 8) \<and>
     double_vector (new_Vector3 12 24 38) \<and>
     exact_sub (new_Vector3 12 24 38) (new_Vector3 10 20 30) \<and>
     add (box_min (pco_boundingBox pco)) (pco_offset pco) = new_Vector3 10 20 30 \<and>
     add (box_max (pco_boundingBox pco)) (pco_offset pco) = new_Vector3 12 24 38 \<and>
     add (box_max (pco_tightBoundingBox pco)) (pco_offset pco) = new_Vector3 12 24 38"
proof -
  obtain ps pco where l: "onload_pco (\<lambda>a. a) ''http://host/cloud.json'' example_document = Inr (ps, pco)"
    using example_document_loads by blast
  have bm: "box_min (declared_box (boundingBox example_document)) = new_Vector3 10 20 30"
    and bM: "box_max (declared_box (boundingBox example_document)) = new_Vector3 12 24 38"
    by (simp_all add: example_document_def declared_box_def new_Box3_def)
  have tb: "(case tightBoundingBox example_document of None \<Rightarrow> boundingBox example_document
      | Some t \<Rightarrow> t) = boundingBox example_document"
    by (simp add: example_document_def)
  note t = normalization_round_trip [OF l refl refl, unfolded tb bm bM]
  have d: "double_vector (new_Vector3 10 20 30)" "double_vector (new_Vector3 12 24 38)"
    by (simp_all add: double_vector_def new_Vector3_def is_double_def)
  have e: "exact_sub (new_Vector3 12 24 38) (new_Vector3 10 20 30)"
    by (simp add: exact_sub_def new_Vector3_def js_sub_def in_range_small)
  have 1: "pco_offset pco = new_Vector3 10 20 30"
    using t by blast
  have 2: "pco_boundingBox pco = new_Box3 (new_Vector3 0 0 0) (new_Vector3 2 4 8)"
    using t [THEN conjunct2, THEN conjunct1]
    unfolding 1 by (simp add: new_Box3_def new_Vector3_def sub_def js_sub_def round_double_0)
  have 3: "pco_tightBoundingBox pco = new_Box3 (new_Vector3 0 0 0) (new_Vector3 2 4 8)"
    using t [THEN conjunct2, THEN conjunct2, THEN conjunct1]
    unfolding 1 by (simp add: new_Box3_def new_Vector3_def sub_def js_sub_def round_double_0)
  have 4: "add (box_min (pco_boundingBox pco)) (pco_offset pco) = new_Vector3 10 20 30"
    using t d by blast
  have 5: "add (box_max (pco_boundingBox pco)) (pco_offset pco) = new_Vector3 12 24 38"
    using t d e by blast
  have 6: "add (box_max (pco_tightBoundingBox pco)) (pco_offset pco) = new_Vector3 12 24 38"
    using t d e by blast
  from l 1 2 3 4 5 6 d e show ?thesis by blast
qed

text \<open>
  The round trip claim C3 states fails on doubles: with the bounding box from \<^verbatim>\<open>0.3\<close> to
  \<^verbatim>\<open>0.9\<close> on the x axis, the normalized maximum is \<^verbatim>\<open>0.6000000000000001\<close>, and adding the
  offset \<^verbatim>\<open>0.3\<close> gives \<^verbatim>\<open>0.9000000000000001\<close>, not \<^verbatim>\<open>0.9\<close>.
\<close>

theorem normalization_round_trip_counterexample:
  "\<exists>ps pco. onload_pco (\<lambda>a. a) ''http://host/cloud.json'' rounding_document = Inr (ps, pco) \<and>
     double_vector (box_min (declared_box (boundingBox rounding_document))) \<and>
     double_vector (box_max (declared_box (boundingBox rounding_document))) \<and>
     pco_offset pco = box_min (declared_box (boundingBox rounding_document)) \<and>
     vec_x (box_max (pco_boundingBox pco)) = 1351079888211149 / 2 ^ 51 \<and>
     vec_x (add (box_max (pco_boundingBox pco)) (pco_offset pco)) = 4053239664633447 / 2 ^ 52 \<and>
     add (box_max (pco_boundingBox pco)) (pco_offset pco) \<noteq>
       box_max (declared_box (boundingBox rounding_document))"
proof -
  let ?lo = "5404319552844595 / 2 ^ 54 :: real"
  let ?hi = "8106479329266893 / 2 ^ 53 :: real"
  have a1: "js_sub ?hi ?lo = 1351079888211149 / 2 ^ 51"
    unfolding js_sub_def
    using round_double_eval [of "- 1" "?hi - ?lo" "- 53"]
    by (simp add: round_half_even_def power_int_minus)
  have a2: "js_add (1351079888211149 / 2 ^ 51) ?lo = 4053239664633447 / 2 ^ 52"
    unfolding js_add_def
    using round_double_eval [of "- 1" "1351079888211149 / 2 ^ 51 + ?lo" "- 53"]
    by (simp add: round_half_even_def power_int_minus)
  have d1: "is_double ?lo"
    using is_double_ratio [of 5404319552844595 54] by simp
  have d2: "is_double ?hi"
    using is_double_ratio [of 8106479329266893 53] by simp
  have d3: "is_double 0" "is_double 1"
    by (simp_all add: is_double_def round_double_0)
  have "\<exists>ps pco. onload_pco (\<lambda>a. a) ''http://host/cloud.json'' rounding_document = Inr (ps, pco)"
    by (simp add: onload_pco_def rounding_document_def new_Version_1_7 upTo_def root_numPoints_def
        Let_def split: prod.splits)
  then obtain ps pco where l: "onload_pco (\<lambda>a. a) ''http://host/cloud.json'' rounding_document = Inr (ps, pco)"
    by blast
  from onload_pco_Inr [OF l]
  have b: "pco_boundingBox pco = fst (normalize_boxes (boundingBox rounding_document) (tightBoundingBox rounding_document))"
    and o: "pco_offset pco = snd (snd (normalize_boxes (boundingBox rounding_document) (tightBoundingBox rounding_document)))"
    by auto
  have bb: "boundingBox rounding_document =
      \<lparr>lx = ?lo, ly = 0, lz = 0, ux = ?hi, uy = 1, uz = 1\<rparr>"
    by (simp only: rounding_document_def document.select_convs)
  have 1: "double_vector (box_min (declared_box (boundingBox rounding_document)))"
    "double_vector (box_max (declared_box (boundingBox rounding_document)))"
    unfolding bb declared_box_def new_Box3_def new_Vector3_def double_vector_def
    by (simp_all only: bounds.select_convs Box3.select_convs Vector3.select_convs d1 d2 d3 simp_thms)
  have 2: "pco_offset pco = box_min (declared_box (boundingBox rounding_document))"
    unfolding o normalize_boxes_eq by simp
  have 3: "vec_x (box_max (pco_boundingBox pco)) = 1351079888211149 / 2 ^ 51"
    unfolding b normalize_boxes_eq bb declared_box_def new_Box3_def new_Vector3_def sub_def
    by (simp only: bounds.select_convs Box3.select_convs Vector3.select_convs fst_conv a1)
  have 4: "vec_x (add (box_max (pco_boundingBox pco)) (pco_offset pco)) = 4053239664633447 / 2 ^ 52"
    unfolding b o normalize_boxes_eq bb declared_box_def new_Box3_def new_Vector3_def sub_def add_def
    by (simp only: bounds.select_convs Box3.select_convs Vector3.select_convs fst_conv snd_conv a1 a2)
  have "vec_x (box_max (declared_box (boundingBox rounding_document))) = ?hi"
    unfolding bb declared_box_def new_Box3_def new_Vector3_def
    by (simp only: bounds.select_convs Box3.select_convs Vector3.select_convs)
  with 4 have "vec_x (add (box_max (pco_boundingBox pco)) (pco_offset pco)) \<noteq>
      vec_x (box_max (declared_box (boundingBox rounding_document)))"
    by simp
  then have 5: "add (box_max (pco_boundingBox pco)) (pco_offset pco) \<noteq>
      box_max (declared_box (boundingBox rounding_document))"
    by auto
  from l 1 2 3 4 5 show ?thesis by blast
qed


text \<open>
  Claim C4. If \<open>pointAttributes\<close> is \<^verbatim>\<open>"LAS"\<close> or \<^verbatim>\<open>"LAZ"\<close>, the decoder is the LAS/LAZ decoder
  made with the document's version, and the descriptor keeps the raw tag; for every other
  value the decoder is the binary decoder made with the version, the normalized bounding
  box and the declared scale, and the descriptor's attributes are the object
  \<^verbatim>\<open>new PointAttributes(...)\<close> makes of the document's value.
\<close>

theorem decoder_selection:
  assumes "onload_pco PA url data = Inr (ps, pco)"
  shows "(pointAttributes data = Tag ''LAS'' \<or> pointAttributes data = Tag ''LAZ'' \<longrightarrow>
            pco_loader pco = LASLAZLoader (version data) \<and>
            pco_pointAttributes pco = Raw (pointAttributes data)) \<and>
         (pointAttributes data \<noteq> Tag ''LAS'' \<and> pointAttributes data \<noteq> Tag ''LAZ'' \<longrightarrow>
            pco_loader pco = BinaryLoader (version data) (pco_boundingBox pco) (scale data) \<and>
            pco_pointAttributes pco = Expanded (PA (pointAttributes data)))"
proof -
  from onload_pco_Inr [OF assms]
  have "pco_loader pco = fst (select_loader PA data (pco_boundingBox pco))"
    and "pco_pointAttributes pco = snd (select_loader PA data (pco_boundingBox pco))"
    by auto
  then show ?thesis by (simp add: select_loader_def)
qed

theorem decoder_selection_witness:
  "(\<exists>ps pco. onload_pco (\<lambda>a. a) ''http://host/cloud.json'' example_document = Inr (ps, pco) \<and>
      pco_loader pco = LASLAZLoader ''1.4'' \<and> pco_pointAttributes pco = Raw (Tag ''LAZ'')) \<and>
   (\<exists>ps pco. onload_pco (\<lambda>a. a) ''http://host/cloud.json'' example_current = Inr (ps, pco) \<and>
      pco_loader pco = BinaryLoader ''1.7'' (pco_boundingBox pco) (1 / 100) \<and>
      pco_pointAttributes pco = Expanded (Attributes [''POSITION_CARTESIAN'']))"
proof -
  obtain ps pco where l: "onload_pco (\<lambda>a. a) ''http://host/cloud.json'' example_document = Inr (ps, pco)"
    using example_document_loads by blast
  have "pco_loader pco = LASLAZLoader ''1.4'' \<and> pco_pointAttributes pco = Raw (Tag ''LAZ'')"
    using decoder_selection [OF l] by (simp add: example_document_def)
  moreover
  obtain ps' pco' where l': "onload_pco (\<lambda>a. a) ''http://host/cloud.json'' example_current = Inr (ps', pco')"
    using example_current_loads by blast
  have "pco_loader pco' = BinaryLoader ''1.7'' (pco_boundingBox pco') (1 / 100) \<and>
      pco_pointAttributes pco' = Expanded (Attributes [''POSITION_CARTESIAN''])"
    using decoder_selection [OF l'] by (simp add: example_current_def)
  ultimately show ?thesis using l l' by blast
qed

lemma js_sub_mono: "a \<le> b \<Longrightarrow> js_sub a c \<le> js_sub b c"
  by (simp add: js_sub_def round_double_mono)

lemma containsBox_sub:
  assumes "containsBox a b"
  shows "containsBox \<lparr>box_min = sub (box_min a) c, box_max = sub (box_max a) c\<rparr>
                     \<lparr>box_min = sub (box_min b) c, box_max = sub (box_max b) c\<rparr>"
  using assms by (simp add: containsBox_def sub_def js_sub_mono)

text \<open>
  Claim C8, as the code has it. When the document omits the tight box, the descriptor's
  \<open>tightBoundingBox\<close> equals its normalized \<open>boundingBox\<close> (and is contained in it). A
  declared tight box is moved by the same offset and not checked against the full box:
  the \<open>tightBoundingBox\<close> is the declared tight box with the offset subtracted, and it
  is contained in the \<open>boundingBox\<close> whenever the declared tight box is contained in the
  declared box.
\<close>

theorem tightBoundingBox_default_and_containment:
  assumes "onload_pco PA url data = Inr (ps, pco)"
  shows "(tightBoundingBox data = None \<longrightarrow>
            pco_tightBoundingBox pco = pco_boundingBox pco \<and>
            containsBox (pco_boundingBox pco) (pco_tightBoundingBox pco)) \<and>
         (\<forall>t. tightBoundingBox data = Some t \<longrightarrow>
            pco_tightBoundingBox pco =
              \<lparr>box_min = sub (box_min (declared_box t)) (pco_offset pco),
               box_max = sub (box_max (declared_box t)) (pco_offset pco)\<rparr> \<and>
            (containsBox (declared_box (boundingBox data)) (declared_box t) \<longrightarrow>
             containsBox (pco_boundingBox pco) (pco_tightBoundingBox pco)))"
proof -
  from onload_pco_Inr [OF assms]
  have b: "pco_boundingBox pco = fst (normalize_boxes (boundingBox data) (tightBoundingBox data))"
    and t: "pco_tightBoundingBox pco = fst (snd (normalize_boxes (boundingBox data) (tightBoundingBox data)))"
    and o: "pco_offset pco = snd (snd (normalize_boxes (boundingBox data) (tightBoundingBox data)))"
    by auto
  show ?thesis
    unfolding b t o normalize_boxes_eq
    by (auto simp: containsBox_sub) (simp add: containsBox_def)
qed

theorem tightBoundingBox_default_and_containment_witness:
  "(\<exists>ps pco. onload_pco (\<lambda>a. a) ''http://host/cloud.json'' example_document = Inr (ps, pco) \<and>
      tightBoundingBox example_document = None \<and>
      pco_tightBoundingBox pco = pco_boundingBox pco) \<and>
   (\<exists>ps pco. onload_pco (\<lambda>a. a) ''http://host/cloud.json''
        (example_current\<lparr>tightBoundingBox := Some \<lparr>lx = 0, ly = 0, lz = 0, ux = 1, uy = 1, uz = 1 / 2\<rparr>\<rparr>) =
        Inr (ps, pco) \<and>
      containsBox (pco_boundingBox pco) (pco_tightBoundingBox pco))"
proof -
  obtain ps pco where l: "onload_pco (\<lambda>a. a) ''http://host/cloud.json'' example_document = Inr (ps, pco)"
    using example_document_loads by blast
  have n: "tightBoundingBox example_document = None" by (simp add: example_document_def)
  have "pco_tightBoundingBox pco = pco_boundingBox pco"
    using tightBoundingBox_default_and_containment [OF l] n by simp
  moreover
  let ?d = "example_current\<lparr>tightBoundingBox := Some \<lparr>lx = 0, ly = 0, lz = 0, ux = 1, uy = 1, uz = 1 / 2\<rparr>\<rparr>"
  have "\<exists>ps pco. onload_pco (\<lambda>a. a) ''http://host/cloud.json'' ?d = Inr (ps, pco)"
    by (simp add: onload_pco_def example_current_def new_Version_1_7 upTo_def root_numPoints_def
        Let_def split: prod.splits)
  then obtain ps' pco' where l': "onload_pco (\<lambda>a. a) ''http://host/cloud.json'' ?d = Inr (ps', pco')"
    by blast
  have s: "tightBoundingBox ?d = Some \<lparr>lx = 0, ly = 0, lz = 0, ux = 1, uy = 1, uz = 1 / 2\<rparr>"
    by simp
  have c: "containsBox (declared_box (boundingBox ?d))
      (declared_box \<lparr>lx = 0, ly = 0, lz = 0, ux = 1, uy = 1, uz = 1 / 2\<rparr>)"
    by (simp add: example_current_def containsBox_def declared_box_def new_Box3_def new_Vector3_def)
  have "containsBox (pco_boundingBox pco') (pco_tightBoundingBox pco')"
    using tightBoundingBox_default_and_containment [OF l'] s c by blast
  ultimately show ?thesis using l l' n by blast
qed

text \<open>
  The containment claim C8 states fails on a document whose tight box is larger than its
  full box.
\<close>

theorem tightBoundingBox_contained_counterexample:
  "\<exists>ps pco. onload_pco (\<lambda>a. a) ''http://host/cloud.json'' example_current = Inr (ps, pco) \<and>
     pco_boundingBox pco = new_Box3 (new_Vector3 0 0 0) (new_Vector3 1 1 1) \<and>
     pco_tightBoundingBox pco = new_Box3 (new_Vector3 (- 1) (- 1) (- 1)) (new_Vector3 2 2 2) \<and>
     \<not> containsBox (pco_boundingBox pco) (pco_tightBoundingBox pco)"
  by (simp add: onload_pco_def example_current_def new_Version_1_7 upTo_def root_numPoints_def
      normalize_boxes_def select_loader_def load_root_def Let_def new_Box3_def new_Vector3_def
      sub_def js_sub_def round_double_0 containsBox_def)

text \<open>
  Claim C6. When the request fails, the callback is called once, with no descriptor; one
  line with the url and the event is written to the console; the counter
  \<open>numNodesLoading\<close> goes down by one; and the load ends without an exception.
\<close>

theorem transport_failure:
  "load PA url (Failed event) w =
     Inr (w\<lparr>numNodesLoading := numNodesLoading w - 1,
            console := console w @ [(''Potree: loading file failed.'', url, event)],
            callbacks := callbacks w @ [None]\<rparr>)"
  by (simp add: load_def onerror_def Let_def)

theorem transport_failure_witness:
  "load (\<lambda>a :: string attribute_schema. a) ''http://host/cloud.json'' (Failed ''timeout'')
      \<lparr>numNodesLoading = 3, console = [], callbacks = [], recorded = []\<rparr> =
     Inr \<lparr>numNodesLoading = 2,
          console = [(''Potree: loading file failed.'', ''http://host/cloud.json'', ''timeout'')],
          callbacks = [None], recorded = []\<rparr>"
  using transport_failure [of "\<lambda>a :: string attribute_schema. a" "''http://host/cloud.json''" "''timeout''"
      "\<lparr>numNodesLoading = 3, console = [], callbacks = [], recorded = []\<rparr>"]
  by simp

section \<open>Properties of the hierarchy loop\<close>

lemma hierarchy_entry_Inr:
  assumes "hierarchy_entry sp e t = Inr t'"
  obtains p where "nodes t (butlast (fst e)) = Some p"
    and "objects t' = addChild p (length (objects t))
           (objects t @ [(new_PointCloudOctreeGeometryNode (fst e)
               (createChildAABB (node_boundingBox (objects t ! p))
                  (parseInt (charAt (fst e) (int (length (fst e)) - 1)))))
             \<lparr>node_level := int (length (fst e)) - 1, node_numPoints := snd e,
              node_spacing := js_div_by sp (Math_pow2 (int (length (fst e)) - 1))\<rparr>])"
    and "nodes t' = (nodes t)(fst e \<mapsto> length (objects t))"
    and "phases t' = phases t @ [TreeBuilding]"
  using assms
  by (auto simp: hierarchy_entry_def Let_def substring_butlast split: option.splits)

lemma hierarchy_entry_succeeds:
  assumes "nodes t (butlast (fst e)) \<noteq> None"
  shows "\<exists>t'. hierarchy_entry sp e t = Inr t'"
  using assms by (auto simp: hierarchy_entry_def Let_def substring_butlast split: option.splits)

lemma hierarchy_entry_fails:
  assumes "nodes t (butlast (fst e)) = None"
  shows "hierarchy_entry sp e t = Inl TypeError"
  using assms by (auto simp: hierarchy_entry_def Let_def substring_butlast split: option.splits)

lemma length_addChild: "length (addChild p c objs) = length objs"
  by (simp add: addChild_def Let_def)

lemma addChild_nth:
  assumes "i < length objs" "p < length objs" "c < length objs"
  shows "node_name (addChild p c objs ! i) = node_name (objs ! i)"
    and "node_index (addChild p c objs ! i) = node_index (objs ! i)"
    and "node_boundingBox (addChild p c objs ! i) = node_boundingBox (objs ! i)"
    and "node_level (addChild p c objs ! i) = node_level (objs ! i)"
    and "node_numPoints (addChild p c objs ! i) = node_numPoints (objs ! i)"
    and "node_spacing (addChild p c objs ! i) = node_spacing (objs ! i)"
    and "node_hasChildren (addChild p c objs ! i) = node_hasChildren (objs ! i)"
    and "node_parent (addChild p c objs ! i) = (if i = c then Some p else node_parent (objs ! i))"
    and "node_children (addChild p c objs ! i) =
           (if i = p then (node_children (objs ! i))(node_index (objs ! c) \<mapsto> c)
            else node_children (objs ! i))"
  using assms by (auto simp: addChild_def Let_def nth_list_update)


lemma tree_inv_entry:
  assumes "tree_inv t" "hierarchy_entry sp e t = Inr t'"
  shows "tree_inv t'"
proof -
  from assms(2) obtain p node where p: "nodes t (butlast (fst e)) = Some p"
    and o: "objects t' = addChild p (length (objects t)) (objects t @ [node])"
    and nn: "node_name node = fst e"
    and n: "nodes t' = (nodes t)(fst e \<mapsto> length (objects t))"
    by (rule hierarchy_entry_Inr) (simp add: new_PointCloudOctreeGeometryNode_def)
  from assms(1) p have pl: "p < length (objects t)" by (simp add: tree_inv_def)
  have len: "length (objects t') = Suc (length (objects t))"
    by (simp add: o length_addChild)
  have name: "node_name (objects t' ! i) = (if i = length (objects t) then fst e else node_name (objects t ! i))"
    if "i < Suc (length (objects t))" for i
    using that pl by (simp add: o addChild_nth nth_append nn)
  have 1: "a < length (objects t') \<and> node_name (objects t' ! a) = nm \<and>
        (\<forall>j. a < j \<and> j < length (objects t') \<longrightarrow> node_name (objects t' ! j) \<noteq> nm)"
    if a: "nodes t' nm = Some a" for nm a
  proof (cases "nm = fst e")
    case True
    with a n have "a = length (objects t)" by simp
    then show ?thesis using True len name by simp
  next
    case False
    with a n have "nodes t nm = Some a" by simp
    with assms(1) have "a < length (objects t)" "node_name (objects t ! a) = nm"
      "\<forall>j. a < j \<and> j < length (objects t) \<longrightarrow> node_name (objects t ! j) \<noteq> nm"
      by (simp_all add: tree_inv_def)
    then show ?thesis using False len name by (auto simp: less_Suc_eq)
  qed
  have 2: "nodes t' (node_name (objects t' ! a)) \<noteq> None" if "a < length (objects t')" for a
  proof -
    from that have a: "a < Suc (length (objects t))" using len by simp
    show ?thesis
    proof (cases "a = length (objects t)")
      case True
      then show ?thesis using name [OF a] n by simp
    next
      case False
      with a have "a < length (objects t)" by simp
      with assms(1) have "nodes t (node_name (objects t ! a)) \<noteq> None" by (simp add: tree_inv_def)
      then show ?thesis using name [OF a] False n by simp
    qed
  qed
  have 3: "nodes t' [] = None"
    using assms(1) p n by (auto simp: tree_inv_def)
  show ?thesis
    unfolding tree_inv_def using 1 2 3 by blast
qed

lemma store_extends_refl: "store_extends objs objs"
  by (simp add: store_extends_def)

lemma store_extends_trans:
  assumes ab: "store_extends a b" and bc: "store_extends b c"
  shows "store_extends a c"
proof -
  have l: "length a \<le> length b" "length b \<le> length c"
    using ab bc by (simp_all add: store_extends_def)
  have "node_name (c ! i) = node_name (a ! i) \<and>
        node_index (c ! i) = node_index (a ! i) \<and>
        node_boundingBox (c ! i) = node_boundingBox (a ! i) \<and>
        node_level (c ! i) = node_level (a ! i) \<and>
        node_numPoints (c ! i) = node_numPoints (a ! i) \<and>
        node_spacing (c ! i) = node_spacing (a ! i) \<and>
        node_hasChildren (c ! i) = node_hasChildren (a ! i) \<and>
        node_parent (c ! i) = node_parent (a ! i)"
    if i: "i < length a" for i
  proof -
    from i l have ib: "i < length b" by simp
    from ab i have A: "node_name (b ! i) = node_name (a ! i)"
      "node_index (b ! i) = node_index (a ! i)"
      "node_boundingBox (b ! i) = node_boundingBox (a ! i)"
      "node_level (b ! i) = node_level (a ! i)"
      "node_numPoints (b ! i) = node_numPoints (a ! i)"
      "node_spacing (b ! i) = node_spacing (a ! i)"
      "node_hasChildren (b ! i) = node_hasChildren (a ! i)"
      "node_parent (b ! i) = node_parent (a ! i)"
      by (simp_all add: store_extends_def)
    from bc ib have B: "node_name (c ! i) = node_name (b ! i)"
      "node_index (c ! i) = node_index (b ! i)"
      "node_boundingBox (c ! i) = node_boundingBox (b ! i)"
      "node_level (c ! i) = node_level (b ! i)"
      "node_numPoints (c ! i) = node_numPoints (b ! i)"
      "node_spacing (c ! i) = node_spacing (b ! i)"
      "node_hasChildren (c ! i) = node_hasChildren (b ! i)"
      "node_parent (c ! i) = node_parent (b ! i)"
      by (simp_all add: store_extends_def)
    show ?thesis by (simp add: A B)
  qed
  with l show ?thesis by (simp add: store_extends_def)
qed

lemma store_extends_entry:
  assumes "tree_inv t" "hierarchy_entry sp e t = Inr t'"
  shows "store_extends (objects t) (objects t')"
proof -
  from assms(2) obtain p node where p: "nodes t (butlast (fst e)) = Some p"
    and o: "objects t' = addChild p (length (objects t)) (objects t @ [node])"
    by (rule hierarchy_entry_Inr)
  from assms(1) p have pl: "p < length (objects t)" by (simp add: tree_inv_def)
  show ?thesis
    unfolding store_extends_def o using pl
    by (auto simp: length_addChild addChild_nth nth_append)
qed

lemma entry_built_entry:
  assumes "tree_inv t" "hierarchy_entry sp e t = Inr t'"
  shows "entry_built sp (objects t') (length (objects t)) e"
proof -
  from assms(2) obtain p where p: "nodes t (butlast (fst e)) = Some p"
    and o: "objects t' = addChild p (length (objects t))
           (objects t @ [(new_PointCloudOctreeGeometryNode (fst e)
               (createChildAABB (node_boundingBox (objects t ! p))
                  (parseInt (charAt (fst e) (int (length (fst e)) - 1)))))
             \<lparr>node_level := int (length (fst e)) - 1, node_numPoints := snd e,
              node_spacing := js_div_by sp (Math_pow2 (int (length (fst e)) - 1))\<rparr>])"
    by (rule hierarchy_entry_Inr)
  from assms(1) p have pl: "p < length (objects t)"
    and pn: "node_name (objects t ! p) = butlast (fst e)"
    and pj: "\<forall>j. p < j \<and> j < length (objects t) \<longrightarrow> node_name (objects t ! j) \<noteq> butlast (fst e)"
    by (simp_all add: tree_inv_def)
  from assms(1) p have ne: "fst e \<noteq> []" by (auto simp: tree_inv_def)
  show ?thesis
    unfolding entry_built_def o using pl pn pj ne
    by (auto simp: addChild_nth nth_append new_PointCloudOctreeGeometryNode_def intro!: exI [of _ p])
qed

lemma entry_built_extends:
  assumes "entry_built sp objs a e" "a < length objs" "store_extends objs objs'"
  shows "entry_built sp objs' a e"
proof -
  from assms(1) obtain p where p: "p < a" "node_parent (objs ! a) = Some p"
    "node_name (objs ! p) = butlast (fst e)"
    "\<forall>j. p < j \<and> j < a \<longrightarrow> node_name (objs ! j) \<noteq> butlast (fst e)"
    "node_boundingBox (objs ! a) =
          createChildAABB (node_boundingBox (objs ! p))
            (parseInt (charAt (fst e) (int (length (fst e)) - 1)))"
    unfolding entry_built_def by blast
  have lt: "j < length objs" if "j \<le> a" for j using that assms(2) by simp
  have same: "node_name (objs' ! j) = node_name (objs ! j)" if "j \<le> a" for j
    using lt [OF that] assms(3) by (simp add: store_extends_def)
  show ?thesis
    unfolding entry_built_def
  proof (intro conjI exI [of _ p])
    show "\<forall>j. p < j \<and> j < a \<longrightarrow> node_name (objs' ! j) \<noteq> butlast (fst e)"
      using p(4) same by simp
  qed (use assms p lt in \<open>simp_all add: store_extends_def entry_built_def\<close>)
qed

lemma parseInt_inj:
  assumes "parseInt [a] = Some d" "parseInt [b] = Some d"
  shows "a = b"
proof -
  from assms have a: "48 \<le> (of_char a :: nat)" and b: "48 \<le> (of_char b :: nat)"
    and e: "(of_char a :: nat) - 48 = of_char b - 48"
    by (auto simp: parseInt_def is_digit_def digit_value_def split: if_splits)
  then have "(of_char a :: nat) = of_char b" by linarith
  then show ?thesis by (simp only: of_char_eq_iff)
qed

lemma children_inv_entry:
  assumes inv: "tree_inv t" and ch: "children_inv (objects t)"
    and new: "\<forall>i<length (objects t). node_name (objects t ! i) \<noteq> fst e"
    and e: "hierarchy_entry sp e t = Inr t'"
  shows "children_inv (objects t')"
proof -
  let ?objs = "objects t"
  let ?c = "length ?objs"
  from e obtain q node where q: "nodes t (butlast (fst e)) = Some q"
    and o: "objects t' = addChild q ?c (?objs @ [node])"
    and nn: "node_name node = fst e"
    and ni: "node_index node = parseInt (charAt (fst e) (int (length (fst e)) - 1))"
    and np: "node_parent node = None"
    by (rule hierarchy_entry_Inr) (simp add: new_PointCloudOctreeGeometryNode_def)
  from inv q have ql: "q < ?c" and qn: "node_name (?objs ! q) = butlast (fst e)"
    by (simp_all add: tree_inv_def)
  from inv q have ne: "fst e \<noteq> []" by (auto simp: tree_inv_def)
  have ix: "node_index node = parseInt [last (fst e)]"
    using ne by (simp add: ni charAt_last)
  have len: "length (objects t') = Suc ?c" by (simp add: o length_addChild)
  have nm: "node_name (objects t' ! i) = (if i = ?c then fst e else node_name (?objs ! i))"
    and idx: "node_index (objects t' ! i) = (if i = ?c then node_index node else node_index (?objs ! i))"
    and par: "node_parent (objects t' ! i) = (if i = ?c then Some q else node_parent (?objs ! i))"
    and chl: "node_children (objects t' ! i) =
        (if i = q then (node_children (?objs ! i))(node_index node \<mapsto> ?c)
         else if i = ?c then node_children node else node_children (?objs ! i))"
    if "i < Suc ?c" for i
    using that ql by (simp_all add: o addChild_nth nth_append nn)
  show ?thesis
    unfolding children_inv_def
  proof (intro allI impI)
    fix i p
    assume i: "i < length (objects t')" and p: "node_parent (objects t' ! i) = Some p"
    from i len have i': "i < Suc ?c" by simp
    show "p < length (objects t') \<and>
        node_name (objects t' ! i) \<noteq> [] \<and>
        node_name (objects t' ! p) = butlast (node_name (objects t' ! i)) \<and>
        node_index (objects t' ! i) = parseInt [last (node_name (objects t' ! i))] \<and>
        (node_index (objects t' ! i) \<noteq> None \<longrightarrow>
           node_children (objects t' ! p) (node_index (objects t' ! i)) = Some i)"
    proof (cases "i = ?c")
      case True
      with p par [OF i'] have pq: "p = q" by simp
      have q': "q < Suc ?c" using ql by simp
      show ?thesis
        using True pq ql qn ne ix len nm [OF i'] nm [OF q'] idx [OF i'] chl [OF q'] by simp
    next
      case False
      with i' have il: "i < ?c" by simp
      from p par [OF i'] False have p0: "node_parent (?objs ! i) = Some p" by simp
      from ch il p0 have pl: "p < ?c"
        and n0: "node_name (?objs ! i) \<noteq> []"
        and pn: "node_name (?objs ! p) = butlast (node_name (?objs ! i))"
        and i0: "node_index (?objs ! i) = parseInt [last (node_name (?objs ! i))]"
        and c0: "node_index (?objs ! i) \<noteq> None \<longrightarrow>
                  node_children (?objs ! p) (node_index (?objs ! i)) = Some i"
        unfolding children_inv_def by blast+
      have p': "p < Suc ?c" using pl by simp
      have pc: "p \<noteq> ?c" using pl by simp
      have keep: "node_children (objects t' ! p) (node_index (?objs ! i)) = Some i"
        if d: "node_index (?objs ! i) \<noteq> None"
      proof (cases "p = q")
        case pq: True
        have "node_index node \<noteq> node_index (?objs ! i)"
        proof
          assume eq: "node_index node = node_index (?objs ! i)"
          from d obtain k where k: "node_index (?objs ! i) = Some k" by blast
          from k i0 have "parseInt [last (node_name (?objs ! i))] = Some k" by simp
          moreover from k eq ix have "parseInt [last (fst e)] = Some k" by simp
          ultimately have "last (node_name (?objs ! i)) = last (fst e)" by (rule parseInt_inj)
          moreover have "butlast (node_name (?objs ! i)) = butlast (fst e)"
            using pn qn pq by simp
          ultimately have "butlast (node_name (?objs ! i)) @ [last (node_name (?objs ! i))] =
              butlast (fst e) @ [last (fst e)]"
            by simp
          then have "node_name (?objs ! i) = fst e" using n0 ne by simp
          with new il show False by blast
        qed
        then show ?thesis using chl [OF p'] pq c0 d by simp
      next
        case pq: False
        then show ?thesis using chl [OF p'] pc c0 d by simp
      qed
      show ?thesis
        using False pl pc n0 pn i0 keep len nm [OF i'] nm [OF p'] idx [OF i'] by simp
    qed
  qed
qed

lemma load_hierarchy_children_inv:
  assumes "tree_inv t" "children_inv (objects t)"
    and "distinct (map fst es)"
    and "\<forall>i<length (objects t). node_name (objects t ! i) \<notin> set (map fst es)"
    and "load_hierarchy sp es t = Inr t'"
  shows "children_inv (objects t')"
  using assms
proof (induction es arbitrary: t)
  case Nil
  then show ?case by simp
next
  case (Cons e es)
  from Cons.prems(5) obtain t1 where e: "hierarchy_entry sp e t = Inr t1"
    and r: "load_hierarchy sp es t1 = Inr t'"
    by (auto split: sum.splits)
  have new: "\<forall>i<length (objects t). node_name (objects t ! i) \<noteq> fst e"
    using Cons.prems(4) by auto
  have i1: "tree_inv t1" using Cons.prems(1) e by (rule tree_inv_entry)
  have c1: "children_inv (objects t1)" using Cons.prems(1,2) new e by (rule children_inv_entry)
  have d1: "distinct (map fst es)" using Cons.prems(3) by simp
  have b1: "entry_built sp (objects t1) (length (objects t)) e"
    using Cons.prems(1) e by (rule entry_built_entry)
  have x1: "store_extends (objects t) (objects t1)"
    using Cons.prems(1) e by (rule store_extends_entry)
  have l1: "length (objects t1) = Suc (length (objects t))"
    using e by (rule hierarchy_entry_Inr) (simp add: length_addChild)
  have n1: "\<forall>i<length (objects t1). node_name (objects t1 ! i) \<notin> set (map fst es)"
  proof (intro allI impI)
    fix i assume "i < length (objects t1)"
    then consider "i = length (objects t)" | "i < length (objects t)" using l1 by linarith
    then show "node_name (objects t1 ! i) \<notin> set (map fst es)"
    proof cases
      case 1
      then have "node_name (objects t1 ! i) = fst e" using b1 by (simp add: entry_built_def)
      then show ?thesis using Cons.prems(3) by simp
    next
      case 2
      then have "node_name (objects t1 ! i) = node_name (objects t ! i)"
        using x1 by (simp add: store_extends_def)
      then show ?thesis using Cons.prems(4) 2 by simp
    qed
  qed
  from i1 c1 d1 n1 r show ?case by (rule Cons.IH)
qed

lemma load_hierarchy_phases:
  "load_hierarchy sp es t = Inr t' \<Longrightarrow> phases t' = phases t @ replicate (length es) TreeBuilding"
proof (induction es arbitrary: t)
  case Nil
  then show ?case by simp
next
  case (Cons e es)
  from Cons.prems obtain t1 where e: "hierarchy_entry sp e t = Inr t1"
    and r: "load_hierarchy sp es t1 = Inr t'"
    by (auto split: sum.splits)
  from e have "phases t1 = phases t @ [TreeBuilding]" by (rule hierarchy_entry_Inr)
  with Cons.IH [OF r] show ?case by (simp add: replicate_append_same)
qed

lemma load_hierarchy_entry_built:
  assumes "tree_inv t" "load_hierarchy sp es t = Inr t'"
  shows "tree_inv t' \<and> store_extends (objects t) (objects t') \<and>
         length (objects t') = length (objects t) + length es \<and>
         (\<forall>k<length es. entry_built sp (objects t') (length (objects t) + k) (es ! k))"
  using assms
proof (induction es arbitrary: t)
  case Nil
  then show ?case by (simp add: store_extends_refl)
next
  case (Cons e es)
  from Cons.prems(2) obtain t1 where e: "hierarchy_entry sp e t = Inr t1"
    and r: "load_hierarchy sp es t1 = Inr t'"
    by (auto split: sum.splits)
  have i1: "tree_inv t1" using Cons.prems(1) e by (rule tree_inv_entry)
  have x1: "store_extends (objects t) (objects t1)" using Cons.prems(1) e by (rule store_extends_entry)
  have b1: "entry_built sp (objects t1) (length (objects t)) e" using Cons.prems(1) e by (rule entry_built_entry)
  have l1: "length (objects t1) = Suc (length (objects t))"
    using e by (rule hierarchy_entry_Inr) (simp add: length_addChild)
  from Cons.IH [OF i1 r] have i': "tree_inv t'" and x': "store_extends (objects t1) (objects t')"
    and l': "length (objects t') = length (objects t1) + length es"
    and b': "\<forall>k<length es. entry_built sp (objects t') (length (objects t1) + k) (es ! k)"
    by simp_all
  have b0: "entry_built sp (objects t') (length (objects t)) e"
    using b1 _ x' by (rule entry_built_extends) (simp add: l1)
  have "entry_built sp (objects t') (length (objects t) + k) ((e # es) ! k)" if "k < length (e # es)" for k
  proof (cases k)
    case 0
    then show ?thesis using b0 by simp
  next
    case (Suc k')
    with that have "k' < length es" by simp
    with b' have "entry_built sp (objects t') (length (objects t1) + k') (es ! k')" by simp
    then show ?thesis using Suc l1 by simp
  qed
  then show ?case using i' store_extends_trans [OF x1 x'] l' l1 by simp
qed

lemma load_hierarchy_succeeds:
  assumes "dom (nodes t) = set known" "parents_precede known (map fst es)"
  shows "\<exists>t'. load_hierarchy sp es t = Inr t'"
  using assms
proof (induction es arbitrary: t known)
  case Nil
  then show ?case by simp
next
  case (Cons e es)
  from Cons.prems have "nodes t (butlast (fst e)) \<noteq> None" by auto
  then obtain t1 where e: "hierarchy_entry sp e t = Inr t1"
    using hierarchy_entry_succeeds by blast
  then have "nodes t1 = (nodes t)(fst e \<mapsto> length (objects t))" by (rule hierarchy_entry_Inr)
  then have "dom (nodes t1) = set (fst e # known)" using Cons.prems(1) by simp
  moreover have "parents_precede (fst e # known) (map fst es)" using Cons.prems(2) by simp
  ultimately obtain t' where "load_hierarchy sp es t1 = Inr t'" using Cons.IH by blast
  with e show ?case by simp
qed

lemma load_hierarchy_fails:
  assumes "dom (nodes t) = set known" "\<not> parents_precede known (map fst es)"
  shows "load_hierarchy sp es t = Inl TypeError"
  using assms
proof (induction es arbitrary: t known)
  case Nil
  then show ?case by simp
next
  case (Cons e es)
  show ?case
  proof (cases "butlast (fst e) \<in> set known")
    case False
    with Cons.prems(1) have "nodes t (butlast (fst e)) = None" by auto
    then show ?thesis by (simp add: hierarchy_entry_fails)
  next
    case True
    with Cons.prems(1) have "nodes t (butlast (fst e)) \<noteq> None" by auto
    then obtain t1 where e: "hierarchy_entry sp e t = Inr t1"
      using hierarchy_entry_succeeds by blast
    then have "nodes t1 = (nodes t)(fst e \<mapsto> length (objects t))" by (rule hierarchy_entry_Inr)
    then have "dom (nodes t1) = set (fst e # known)" using Cons.prems(1) by simp
    moreover have "\<not> parents_precede (fst e # known) (map fst es)" using Cons.prems(2) True by simp
    ultimately have "load_hierarchy sp es t1 = Inl TypeError" by (rule Cons.IH)
    with e show ?thesis by simp
  qed
qed

lemma tree_inv_load_root: "tree_inv (load_root data bbox n)"
  by (simp add: tree_inv_def load_root_def Let_def new_PointCloudOctreeGeometryNode_def)

lemma dom_load_root: "dom (nodes (load_root data bbox n)) = set [''r'']"
  by (simp add: load_root_def Let_def)

lemma parseInt_octal_digit: "octal_digit c = Some d \<Longrightarrow> parseInt [c] = Some d"
  by (auto simp: octal_digit_def parseInt_def is_digit_def digit_value_def split: if_splits)

lemma upTo_1_4_1_5: "upTo v (1, 4) \<Longrightarrow> upTo v (1, 5)"
  by (auto simp: upTo_def)

lemma onload_pco_tree:
  assumes "new_Version (version data) = Some v"
    and "root_numPoints v data = Inr n"
    and "(if upTo v (1, 4)
          then load_hierarchy (spacing data) (drop 1 (hierarchy data))
                 (load_root data (fst (normalize_boxes (boundingBox data) (tightBoundingBox data))) n)
          else Inr (load_root data (fst (normalize_boxes (boundingBox data) (tightBoundingBox data))) n)) = Inr t"
  shows "\<exists>pco. onload_pco PA url data = Inr (phases t, pco) \<and>
           pco_objects pco = objects t \<and> pco_nodes pco = nodes t \<and> pco_root pco = 0 \<and>
           pco_boundingBox pco = fst (normalize_boxes (boundingBox data) (tightBoundingBox data))"
  using assms by (auto simp: onload_pco_def Let_def split: prod.splits if_splits)

lemma tree_inv_registered:
  assumes "tree_inv t" "i < length (objects t)"
  shows "\<exists>j. i \<le> j \<and> j < length (objects t) \<and>
           node_name (objects t ! j) = node_name (objects t ! i) \<and>
           nodes t (node_name (objects t ! i)) = Some j"
proof -
  from assms obtain a where a: "nodes t (node_name (objects t ! i)) = Some a"
    by (auto simp: tree_inv_def)
  with assms(1) have al: "a < length (objects t)"
    and an: "node_name (objects t ! a) = node_name (objects t ! i)"
    and aj: "\<forall>j. a < j \<and> j < length (objects t) \<longrightarrow> node_name (objects t ! j) \<noteq> node_name (objects t ! i)"
    by (simp_all add: tree_inv_def)
  have "\<not> a < i" using aj assms(2) by blast
  then have "i \<le> a" by simp
  with a al an show ?thesis by blast
qed

lemma tree_inv_latest:
  assumes "tree_inv t" "i < length (objects t)"
    and "\<forall>j. i < j \<and> j < length (objects t) \<longrightarrow> node_name (objects t ! j) \<noteq> node_name (objects t ! i)"
  shows "nodes t (node_name (objects t ! i)) = Some i"
proof -
  from assms(1,2) obtain a where a: "nodes t (node_name (objects t ! i)) = Some a"
    by (auto simp: tree_inv_def)
  with assms(1) have al: "a < length (objects t)"
    and an: "node_name (objects t ! a) = node_name (objects t ! i)"
    and aj: "\<forall>j. a < j \<and> j < length (objects t) \<longrightarrow> node_name (objects t ! j) \<noteq> node_name (objects t ! i)"
    by (simp_all add: tree_inv_def)
  have "\<not> a < i" using aj assms(2) by blast
  moreover have "\<not> i < a" using assms(3) al an by blast
  ultimately show ?thesis using a by simp
qed

lemma onload_pco_succeeds_iff:
  "(\<exists>x. onload_pco PA url data = Inr x) \<longleftrightarrow>
     (\<exists>v. new_Version (version data) = Some v \<and>
          (upTo v (1, 5) \<longrightarrow> hierarchy data \<noteq> []) \<and>
          (upTo v (1, 4) \<longrightarrow> parents_precede [''r''] (map fst (drop 1 (hierarchy data)))))"
proof
  assume "\<exists>x. onload_pco PA url data = Inr x"
  then obtain ps pco where l: "onload_pco PA url data = Inr (ps, pco)" by auto
  from onload_pco_Inr [OF l] obtain v n t where v: "new_Version (version data) = Some v"
    and n: "root_numPoints v data = Inr n"
    and t: "(if upTo v (1, 4)
      then load_hierarchy (spacing data) (drop 1 (hierarchy data))
             (load_root data (fst (normalize_boxes (boundingBox data) (tightBoundingBox data))) n)
      else Inr (load_root data (fst (normalize_boxes (boundingBox data) (tightBoundingBox data))) n)) = Inr t"
    by blast
  have a: "upTo v (1, 5) \<longrightarrow> hierarchy data \<noteq> []"
    using n by (auto simp: root_numPoints_def)
  have b: "upTo v (1, 4) \<longrightarrow> parents_precede [''r''] (map fst (drop 1 (hierarchy data)))"
  proof
    assume u: "upTo v (1, 4)"
    show "parents_precede [''r''] (map fst (drop 1 (hierarchy data)))"
    proof (rule ccontr)
      assume "\<not> parents_precede [''r''] (map fst (drop 1 (hierarchy data)))"
      with dom_load_root have "load_hierarchy (spacing data) (drop 1 (hierarchy data))
          (load_root data (fst (normalize_boxes (boundingBox data) (tightBoundingBox data))) n) =
          Inl TypeError"
        by (rule load_hierarchy_fails)
      with t u show False by simp
    qed
  qed
  from v a b show "\<exists>v. new_Version (version data) = Some v \<and>
          (upTo v (1, 5) \<longrightarrow> hierarchy data \<noteq> []) \<and>
          (upTo v (1, 4) \<longrightarrow> parents_precede [''r''] (map fst (drop 1 (hierarchy data))))"
    by blast
next
  assume "\<exists>v. new_Version (version data) = Some v \<and>
          (upTo v (1, 5) \<longrightarrow> hierarchy data \<noteq> []) \<and>
          (upTo v (1, 4) \<longrightarrow> parents_precede [''r''] (map fst (drop 1 (hierarchy data))))"
  then obtain v where v: "new_Version (version data) = Some v"
    and a: "upTo v (1, 5) \<longrightarrow> hierarchy data \<noteq> []"
    and b: "upTo v (1, 4) \<longrightarrow> parents_precede [''r''] (map fst (drop 1 (hierarchy data)))"
    by blast
  let ?n = "if upTo v (1, 5) then snd (hd (hierarchy data)) else 0"
  let ?t0 = "load_root data (fst (normalize_boxes (boundingBox data) (tightBoundingBox data))) ?n"
  let ?r = "if upTo v (1, 4)
            then load_hierarchy (spacing data) (drop 1 (hierarchy data)) ?t0
            else Inr ?t0"
  have n: "root_numPoints v data = Inr ?n"
    using a by (cases "hierarchy data") (simp_all add: root_numPoints_def)
  have "\<exists>t. ?r = Inr t"
  proof (cases "upTo v (1, 4)")
    case True
    with b have "parents_precede [''r''] (map fst (drop 1 (hierarchy data)))" by simp
    with dom_load_root have "\<exists>t. load_hierarchy (spacing data) (drop 1 (hierarchy data)) ?t0 = Inr t"
      by (rule load_hierarchy_succeeds)
    with True show ?thesis by simp
  next
    case False
    then show ?thesis by simp
  qed
  then obtain t where "?r = Inr t" by blast
  from onload_pco_tree [OF v n this] show "\<exists>x. onload_pco PA url data = Inr x" by blast
qed

lemma parents_precede_nonempty:
  assumes "parents_precede known ns" "[] \<notin> set known"
  shows "\<forall>n\<in>set ns. butlast n \<noteq> []"
  using assms
proof (induction ns arbitrary: known)
  case Nil
  then show ?case by simp
next
  case (Cons n ns)
  from Cons.prems have b: "butlast n \<in> set known" and r: "parents_precede (n # known) ns"
    by simp_all
  from b Cons.prems(2) have 1: "butlast n \<noteq> []" by auto
  then have "n \<noteq> []" by auto
  with Cons.prems(2) have "[] \<notin> set (n # known)" by simp
  with r have "\<forall>n\<in>set ns. butlast n \<noteq> []" by (rule Cons.IH)
  with 1 show ?case by simp
qed

lemma js_div_by_Math_pow2:
  "js_div_by sp (Math_pow2 (int n)) = (if 1024 \<le> n then 0 else round_double (sp / 2 ^ n))"
  using round_double_pow2 [of "int n"] by (simp add: Math_pow2_def js_div_by_def js_div_def)

lemma children_inv_load_root: "children_inv (objects (load_root data bbox n))"
  by (simp add: children_inv_def load_root_def Let_def new_PointCloudOctreeGeometryNode_def)

lemma hierarchy_nodes_built:
  assumes "new_Version (version data) = Some v" and "upTo v (1, 4)"
    and "hierarchy data = e0 # es"
    and "parents_precede [''r''] (map fst es)"
    and "distinct (map fst es)"
  shows "\<exists>ps pco. onload_pco PA url data = Inr (ps, pco) \<and>
     length (pco_objects pco) = length (hierarchy data) \<and>
     node_name (pco_objects pco ! 0) = ''r'' \<and>
     (\<forall>i. 1 \<le> i \<and> i < length (hierarchy data) \<longrightarrow>
        (\<exists>p<i.
           let name = fst (hierarchy data ! i);
               numPoints = snd (hierarchy data ! i);
               index = parseInt (charAt name (int (length name) - 1));
               node = pco_objects pco ! i;
               parent = pco_objects pco ! p
           in name \<noteq> [] \<and>
              node_name node = name \<and>
              node_level node = int (length name) - 1 \<and>
              node_index node = index \<and>
              (\<forall>d. octal_digit (last name) = Some d \<longrightarrow> index = Some d) \<and>
              node_boundingBox node = createChildAABB (node_boundingBox parent) index \<and>
              node_spacing node =
                (if 1024 \<le> length name - 1 then 0
                 else round_double (spacing data / 2 ^ (length name - 1))) \<and>
              node_numPoints node = numPoints \<and>
              node_name parent = butlast name \<and>
              pco_nodes pco (butlast name) = Some p \<and>
              node_parent node = Some p \<and>
              (index \<noteq> None \<longrightarrow> node_children parent index = Some i) \<and>
              pco_nodes pco name = Some i))"
proof -
  let ?bbox = "fst (normalize_boxes (boundingBox data) (tightBoundingBox data))"
  let ?t0 = "load_root data ?bbox (snd e0)"
  have n: "root_numPoints v data = Inr (snd e0)"
    using assms(3) upTo_1_4_1_5 [OF assms(2)] by (simp add: root_numPoints_def)
  obtain t where t: "load_hierarchy (spacing data) es ?t0 = Inr t"
    using load_hierarchy_succeeds [OF dom_load_root assms(4)] by blast
  note b = load_hierarchy_entry_built [OF tree_inv_load_root t]
  have inv: "tree_inv t" and ext: "store_extends (objects ?t0) (objects t)"
    and len: "length (objects t) = Suc (length es)"
    and built: "\<And>k. k < length es \<Longrightarrow> entry_built (spacing data) (objects t) (Suc k) (es ! k)"
    using b by (simp_all add: load_root_def Let_def)
  have "(if upTo v (1, 4)
          then load_hierarchy (spacing data) (drop 1 (hierarchy data)) (load_root data ?bbox (snd e0))
          else Inr (load_root data ?bbox (snd e0))) = Inr t"
    using assms(2,3) t by simp
  from onload_pco_tree [OF assms(1) n this]
  obtain pco where l: "onload_pco PA url data = Inr (phases t, pco)"
    and po: "pco_objects pco = objects t" and pn: "pco_nodes pco = nodes t"
    by blast
  have root: "node_name (objects t ! 0) = ''r''"
    using ext by (simp add: store_extends_def load_root_def Let_def new_PointCloudOctreeGeometryNode_def)
  have nr: "\<forall>n\<in>set (map fst es). butlast n \<noteq> []"
    using assms(4) by (rule parents_precede_nonempty) simp
  have r_new: "''r'' \<notin> set (map fst es)"
  proof
    assume "''r'' \<in> set (map fst es)"
    with nr have "butlast ''r'' \<noteq> []" by blast
    then show False by simp
  qed
  have "\<forall>i<length (objects ?t0). node_name (objects ?t0 ! i) \<notin> set (map fst es)"
    using r_new by (simp add: load_root_def Let_def new_PointCloudOctreeGeometryNode_def)
  with tree_inv_load_root children_inv_load_root assms(5)
  have ch: "children_inv (objects t)"
    using t by (rule load_hierarchy_children_inv)
  have name_of: "node_name (objects t ! Suc k) = fst (es ! k)" if "k < length es" for k
    using built [OF that] by (simp add: entry_built_def)
  have differ: "node_name (objects t ! a) \<noteq> node_name (objects t ! c)"
    if ac: "a < c" "c < length (objects t)" for a c
  proof -
    from ac len obtain k where k: "c = Suc k" "k < length es" by (cases c) auto
    have nc: "node_name (objects t ! c) = fst (es ! k)" using name_of [OF k(2)] k(1) by simp
    show ?thesis
    proof (cases a)
      case 0
      have "map fst es ! k \<in> set (map fst es)" using k(2) by (intro nth_mem) simp
      then have mem: "fst (es ! k) \<in> set (map fst es)" using k(2) by (simp only: nth_map)
      have "fst (es ! k) \<noteq> ''r''"
      proof
        assume eq: "fst (es ! k) = ''r''"
        from mem have "''r'' \<in> set (map fst es)" unfolding eq .
        with r_new show False by (rule notE)
      qed
      with 0 root nc show ?thesis by simp
    next
      case (Suc j)
      with ac k have j: "j < k" by simp
      with k(2) have jl: "j < length es" by simp
      have na: "node_name (objects t ! a) = fst (es ! j)" using name_of [OF jl] Suc by simp
      have "j < length (map fst es)" "k < length (map fst es)" using jl k(2) by simp_all
      with assms(5) have "(map fst es ! j = map fst es ! k) = (j = k)"
        by (rule nth_eq_iff_index_eq)
      with j jl k(2) have "fst (es ! j) \<noteq> fst (es ! k)" by simp
      then show ?thesis using na nc by simp
    qed
  qed
  have latest: "nodes t (node_name (objects t ! a)) = Some a" if a: "a < length (objects t)" for a
  proof (rule tree_inv_latest [OF inv a], intro allI impI)
    fix j assume "a < j \<and> j < length (objects t)"
    then have "node_name (objects t ! a) \<noteq> node_name (objects t ! j)" using differ by blast
    then show "node_name (objects t ! j) \<noteq> node_name (objects t ! a)" by (rule not_sym)
  qed
  have node: "\<exists>p<i.
           let name = fst (hierarchy data ! i);
               numPoints = snd (hierarchy data ! i);
               index = parseInt (charAt name (int (length name) - 1));
               node = objects t ! i;
               parent = objects t ! p
           in name \<noteq> [] \<and>
              node_name node = name \<and>
              node_level node = int (length name) - 1 \<and>
              node_index node = index \<and>
              (\<forall>d. octal_digit (last name) = Some d \<longrightarrow> index = Some d) \<and>
              node_boundingBox node = createChildAABB (node_boundingBox parent) index \<and>
              node_spacing node =
                (if 1024 \<le> length name - 1 then 0
                 else round_double (spacing data / 2 ^ (length name - 1))) \<and>
              node_numPoints node = numPoints \<and>
              node_name parent = butlast name \<and>
              nodes t (butlast name) = Some p \<and>
              node_parent node = Some p \<and>
              (index \<noteq> None \<longrightarrow> node_children parent index = Some i) \<and>
              nodes t name = Some i"
    if i: "1 \<le> i \<and> i < length (hierarchy data)" for i
  proof -
    from i obtain k where k: "i = Suc k" "k < length es"
      using assms(3) by (cases i) auto
    have e: "hierarchy data ! i = es ! k" using k assms(3) by simp
    let ?name = "fst (es ! k)"
    let ?index = "parseInt (charAt ?name (int (length ?name) - 1))"
    have B: "entry_built (spacing data) (objects t) i (es ! k)"
      using built [OF k(2)] k(1) by simp
    from B obtain p where ne: "?name \<noteq> []"
      and nm: "node_name (objects t ! i) = ?name"
      and ix: "node_index (objects t ! i) = ?index"
      and lv: "node_level (objects t ! i) = int (length ?name) - 1"
      and np: "node_numPoints (objects t ! i) = snd (es ! k)"
      and sp: "node_spacing (objects t ! i) = js_div_by (spacing data) (Math_pow2 (int (length ?name) - 1))"
      and p: "p < i" "node_parent (objects t ! i) = Some p"
        "node_name (objects t ! p) = butlast ?name"
        "node_boundingBox (objects t ! i) = createChildAABB (node_boundingBox (objects t ! p)) ?index"
      unfolding entry_built_def by (elim conjE exE) (rule that; assumption)
    have li: "i < length (objects t)" and lp: "p < length (objects t)"
      using k p(1) len by simp_all
    have oct: "\<forall>d. octal_digit (last ?name) = Some d \<longrightarrow> ?index = Some d"
      using ne by (simp add: charAt_last parseInt_octal_digit)
    have "int (length ?name) - 1 = int (length ?name - 1)"
      using ne by (cases ?name) simp_all
    with sp have "node_spacing (objects t ! i) =
        js_div_by (spacing data) (Math_pow2 (int (length ?name - 1)))"
      by (simp only:)
    then have sp': "node_spacing (objects t ! i) =
        (if 1024 \<le> length ?name - 1 then 0
         else round_double (spacing data / 2 ^ (length ?name - 1)))"
      by (simp only: js_div_by_Math_pow2)
    have rp: "nodes t (butlast ?name) = Some p"
      using latest [OF lp] p(3) by simp
    have ri: "nodes t ?name = Some i"
      using latest [OF li] nm by simp
    have cs: "?index \<noteq> None \<longrightarrow> node_children (objects t ! p) ?index = Some i"
      using ch li p(2) ix unfolding children_inv_def by metis
    show ?thesis
      unfolding Let_def e
    proof (rule exI [of _ p], intro conjI)
      show "p < i" by (rule p(1))
    qed (use ne nm ix lv np sp' oct p rp ri cs in simp_all)
  qed
  have ll: "length (objects t) = length (hierarchy data)" using len assms(3) by simp
  show ?thesis
  proof (rule exI [of _ "phases t"], rule exI [of _ pco], intro conjI allI impI)
    show "onload_pco PA url data = Inr (phases t, pco)" by (rule l)
    show "length (pco_objects pco) = length (hierarchy data)" unfolding po by (rule ll)
    show "node_name (pco_objects pco ! 0) = ''r''" unfolding po by (rule root)
  next
    fix i assume "1 \<le> i \<and> i < length (hierarchy data)"
    then show "\<exists>p<i.
           let name = fst (hierarchy data ! i);
               numPoints = snd (hierarchy data ! i);
               index = parseInt (charAt name (int (length name) - 1));
               node = pco_objects pco ! i;
               parent = pco_objects pco ! p
           in name \<noteq> [] \<and>
              node_name node = name \<and>
              node_level node = int (length name) - 1 \<and>
              node_index node = index \<and>
              (\<forall>d. octal_digit (last name) = Some d \<longrightarrow> index = Some d) \<and>
              node_boundingBox node = createChildAABB (node_boundingBox parent) index \<and>
              node_spacing node =
                (if 1024 \<le> length name - 1 then 0
                 else round_double (spacing data / 2 ^ (length name - 1))) \<and>
              node_numPoints node = numPoints \<and>
              node_name parent = butlast name \<and>
              pco_nodes pco (butlast name) = Some p \<and>
              node_parent node = Some p \<and>
              (index \<noteq> None \<longrightarrow> node_children parent index = Some i) \<and>
              pco_nodes pco name = Some i"
      unfolding po pn by (rule node)
  qed
qed

text \<open>
  Claim C1, as the code has it. The claim as stated fails in two ways (see the
  counterexample below): the root is registered under \<^verbatim>\<open>'r'\<close> whatever the first entry is
  called, so a list in which every entry's parent precedes it can still make the load
  throw; and a name listed twice takes the place of the first node built under it, in the
  index and among the children of its parent.

  For a legacy document (version at most 1.4) whose first entry is called \<^verbatim>\<open>'r'\<close>, whose
  entries have pairwise distinct names and in which every entry's parent precedes it, the
  load succeeds and builds one node for each entry after the first, at the entry's
  position in the store. With \<open>name\<close> the entry's name: the node's level is
  \<open>length name - 1\<close>; its index is the final character of \<open>name\<close> as \<^verbatim>\<open>parseInt\<close> reads it,
  which for an octal digit is its value; its box is \<open>createChildAABB\<close> of the parent's box
  and that index; its spacing is the root spacing divided by \<open>2 ^ level\<close>, rounded to a
  double (and 0 from level 1024 on, where \<^verbatim>\<open>Math.pow(2, level)\<close> is \<^verbatim>\<open>Infinity\<close>); its point
  count is the entry's; its parent is the node of the entry called
  \<open>name\<close> without its last character, which is the node indexed under that name and has
  the node as its child at the index (when the index is a number); and the index of the
  descriptor sends \<open>name\<close> to the node.
\<close>

theorem legacy_hierarchy_nodes:
  assumes "new_Version (version data) = Some v" and "upTo v (1, 4)"
    and "hierarchy data = e0 # es" and "fst e0 = ''r''"
    and "every_parent_precedes (map fst (hierarchy data))"
    and "distinct (map fst (hierarchy data))"
  shows "\<exists>ps pco. onload_pco PA url data = Inr (ps, pco) \<and>
     length (pco_objects pco) = length (hierarchy data) \<and>
     (\<forall>i. 1 \<le> i \<and> i < length (hierarchy data) \<longrightarrow>
        (\<exists>p<i.
           let name = fst (hierarchy data ! i);
               numPoints = snd (hierarchy data ! i);
               index = parseInt (charAt name (int (length name) - 1));
               node = pco_objects pco ! i;
               parent = pco_objects pco ! p
           in name \<noteq> [] \<and>
              fst (hierarchy data ! p) = butlast name \<and>
              node_name node = name \<and>
              node_level node = int (length name) - 1 \<and>
              node_index node = index \<and>
              (\<forall>d. octal_digit (last name) = Some d \<longrightarrow> index = Some d) \<and>
              node_boundingBox node = createChildAABB (node_boundingBox parent) index \<and>
              node_spacing node =
                (if 1024 \<le> length name - 1 then 0
                 else round_double (spacing data / 2 ^ (length name - 1))) \<and>
              node_numPoints node = numPoints \<and>
              node_name parent = butlast name \<and>
              pco_nodes pco (butlast name) = Some p \<and>
              node_parent node = Some p \<and>
              (index \<noteq> None \<longrightarrow> node_children parent index = Some i) \<and>
              pco_nodes pco name = Some i))"
proof -
  have pp: "parents_precede [''r''] (map fst es)"
    using assms(3,4,5) by (simp add: every_parent_precedes_def)
  have dd: "distinct (map fst es)" using assms(3,6) by simp
  from hierarchy_nodes_built [OF assms(1,2,3) pp dd, of PA url]
  obtain ps pco where l: "onload_pco PA url data = Inr (ps, pco)"
    and len: "length (pco_objects pco) = length (hierarchy data)"
    and r: "node_name (pco_objects pco ! 0) = ''r''"
    and n: "\<forall>i. 1 \<le> i \<and> i < length (hierarchy data) \<longrightarrow>
        (\<exists>p<i.
           let name = fst (hierarchy data ! i);
               numPoints = snd (hierarchy data ! i);
               index = parseInt (charAt name (int (length name) - 1));
               node = pco_objects pco ! i;
               parent = pco_objects pco ! p
           in name \<noteq> [] \<and>
              node_name node = name \<and>
              node_level node = int (length name) - 1 \<and>
              node_index node = index \<and>
              (\<forall>d. octal_digit (last name) = Some d \<longrightarrow> index = Some d) \<and>
              node_boundingBox node = createChildAABB (node_boundingBox parent) index \<and>
              node_spacing node =
                (if 1024 \<le> length name - 1 then 0
                 else round_double (spacing data / 2 ^ (length name - 1))) \<and>
              node_numPoints node = numPoints \<and>
              node_name parent = butlast name \<and>
              pco_nodes pco (butlast name) = Some p \<and>
              node_parent node = Some p \<and>
              (index \<noteq> None \<longrightarrow> node_children parent index = Some i) \<and>
              pco_nodes pco name = Some i)"
    by (elim exE conjE)
  have names: "node_name (pco_objects pco ! j) = fst (hierarchy data ! j)"
    if j: "j < length (hierarchy data)" for j
  proof (cases j)
    case 0
    then show ?thesis using r assms(3,4) by simp
  next
    case (Suc k)
    with j have "1 \<le> j \<and> j < length (hierarchy data)" by simp
    with n have "\<exists>p<j. node_name (pco_objects pco ! j) = fst (hierarchy data ! j)"
      unfolding Let_def by blast
    then show ?thesis by blast
  qed
  show ?thesis
  proof (rule exI [of _ ps], rule exI [of _ pco], intro conjI allI impI)
    show "onload_pco PA url data = Inr (ps, pco)" by (rule l)
    show "length (pco_objects pco) = length (hierarchy data)" by (rule len)
  next
    fix i assume i: "1 \<le> i \<and> i < length (hierarchy data)"
    let ?name = "fst (hierarchy data ! i)"
    let ?index = "parseInt (charAt ?name (int (length ?name) - 1))"
    from n i obtain p where p: "p < i"
      and f: "?name \<noteq> []"
        "node_name (pco_objects pco ! i) = ?name"
        "node_level (pco_objects pco ! i) = int (length ?name) - 1"
        "node_index (pco_objects pco ! i) = ?index"
        "\<forall>d. octal_digit (last ?name) = Some d \<longrightarrow> ?index = Some d"
        "node_boundingBox (pco_objects pco ! i) =
           createChildAABB (node_boundingBox (pco_objects pco ! p)) ?index"
        "node_spacing (pco_objects pco ! i) =
           (if 1024 \<le> length ?name - 1 then 0
            else round_double (spacing data / 2 ^ (length ?name - 1)))"
        "node_numPoints (pco_objects pco ! i) = snd (hierarchy data ! i)"
        "node_name (pco_objects pco ! p) = butlast ?name"
        "pco_nodes pco (butlast ?name) = Some p"
        "node_parent (pco_objects pco ! i) = Some p"
        "?index \<noteq> None \<longrightarrow> node_children (pco_objects pco ! p) ?index = Some i"
        "pco_nodes pco ?name = Some i"
      unfolding Let_def by blast
    have "p < length (hierarchy data)" using p i by simp
    from names [OF this] f(9) have e: "fst (hierarchy data ! p) = butlast ?name" by simp
    show "\<exists>p<i.
           let name = fst (hierarchy data ! i);
               numPoints = snd (hierarchy data ! i);
               index = parseInt (charAt name (int (length name) - 1));
               node = pco_objects pco ! i;
               parent = pco_objects pco ! p
           in name \<noteq> [] \<and>
              fst (hierarchy data ! p) = butlast name \<and>
              node_name node = name \<and>
              node_level node = int (length name) - 1 \<and>
              node_index node = index \<and>
              (\<forall>d. octal_digit (last name) = Some d \<longrightarrow> index = Some d) \<and>
              node_boundingBox node = createChildAABB (node_boundingBox parent) index \<and>
              node_spacing node =
                (if 1024 \<le> length name - 1 then 0
                 else round_double (spacing data / 2 ^ (length name - 1))) \<and>
              node_numPoints node = numPoints \<and>
              node_name parent = butlast name \<and>
              pco_nodes pco (butlast name) = Some p \<and>
              node_parent node = Some p \<and>
              (index \<noteq> None \<longrightarrow> node_children parent index = Some i) \<and>
              pco_nodes pco name = Some i"
      unfolding Let_def
    proof (rule exI [of _ p], intro conjI)
      show "p < i" by (rule p)
    qed (use f e in simp_all)
  qed
qed

theorem legacy_hierarchy_nodes_witness:
  "\<exists>ps pco. onload_pco (\<lambda>a. a) ''http://host/cloud.json'' example_document = Inr (ps, pco) \<and>
     node_name (pco_objects pco ! 2) = ''r01'' \<and>
     node_level (pco_objects pco ! 2) = 2 \<and>
     node_index (pco_objects pco ! 2) = Some 1 \<and>
     node_spacing (pco_objects pco ! 2) = 1 / 4 \<and>
     node_numPoints (pco_objects pco ! 2) = 3 \<and>
     node_parent (pco_objects pco ! 2) = Some 1 \<and>
     node_children (pco_objects pco ! 1) (Some 1) = Some 2 \<and>
     node_boundingBox (pco_objects pco ! 2) =
       createChildAABB (node_boundingBox (pco_objects pco ! 1)) (Some 1) \<and>
     pco_nodes pco ''r0'' = Some 1 \<and>
     pco_nodes pco ''r01'' = Some 2"
proof -
  have v: "new_Version (version example_document) = Some \<lparr>versionMajor = 1, versionMinor = 4\<rparr>"
    by (simp add: example_document_def new_Version_1_4)
  have u: "upTo \<lparr>versionMajor = 1, versionMinor = 4\<rparr> (1, 4)" by (simp add: upTo_def)
  have h: "hierarchy example_document = (''r'', 100) # [(''r0'', 10), (''r01'', 3)]"
    by (simp add: example_document_def)
  have f: "fst (''r'', 100 :: real) = ''r''" by simp
  have pp: "every_parent_precedes (map fst (hierarchy example_document))"
    by (simp add: h every_parent_precedes_def)
  have dd: "distinct (map fst (hierarchy example_document))" by (simp add: h)
  from legacy_hierarchy_nodes [OF v u h f pp dd, of "\<lambda>a. a" "''http://host/cloud.json''"]
  obtain ps pco where l: "onload_pco (\<lambda>a. a) ''http://host/cloud.json'' example_document = Inr (ps, pco)"
    and len: "length (pco_objects pco) = length (hierarchy example_document)"
    and n: "\<forall>i. 1 \<le> i \<and> i < length (hierarchy example_document) \<longrightarrow>
        (\<exists>p<i.
           let name = fst (hierarchy example_document ! i);
               numPoints = snd (hierarchy example_document ! i);
               index = parseInt (charAt name (int (length name) - 1));
               node = pco_objects pco ! i;
               parent = pco_objects pco ! p
           in name \<noteq> [] \<and>
              fst (hierarchy example_document ! p) = butlast name \<and>
              node_name node = name \<and>
              node_level node = int (length name) - 1 \<and>
              node_index node = index \<and>
              (\<forall>d. octal_digit (last name) = Some d \<longrightarrow> index = Some d) \<and>
              node_boundingBox node = createChildAABB (node_boundingBox parent) index \<and>
              node_spacing node =
                (if 1024 \<le> length name - 1 then 0
                 else round_double (spacing example_document / 2 ^ (length name - 1))) \<and>
              node_numPoints node = numPoints \<and>
              node_name parent = butlast name \<and>
              pco_nodes pco (butlast name) = Some p \<and>
              node_parent node = Some p \<and>
              (index \<noteq> None \<longrightarrow> node_children parent index = Some i) \<and>
              pco_nodes pco name = Some i)"
    by (elim exE conjE)
  have i2: "1 \<le> (2::nat) \<and> 2 < length (hierarchy example_document)" by (simp add: h)
  let ?R = "\<lambda>p.
           let name = fst (hierarchy example_document ! 2);
               numPoints = snd (hierarchy example_document ! 2);
               index = parseInt (charAt name (int (length name) - 1));
               node = pco_objects pco ! 2;
               parent = pco_objects pco ! p
           in name \<noteq> [] \<and>
              fst (hierarchy example_document ! p) = butlast name \<and>
              node_name node = name \<and>
              node_level node = int (length name) - 1 \<and>
              node_index node = index \<and>
              (\<forall>d. octal_digit (last name) = Some d \<longrightarrow> index = Some d) \<and>
              node_boundingBox node = createChildAABB (node_boundingBox parent) index \<and>
              node_spacing node =
                (if 1024 \<le> length name - 1 then 0
                 else round_double (spacing example_document / 2 ^ (length name - 1))) \<and>
              node_numPoints node = numPoints \<and>
              node_name parent = butlast name \<and>
              pco_nodes pco (butlast name) = Some p \<and>
              node_parent node = Some p \<and>
              (index \<noteq> None \<longrightarrow> node_children parent index = Some 2) \<and>
              pco_nodes pco name = Some 2"
  from n [THEN spec, of 2, THEN mp, OF i2] have "\<exists>p<2. ?R p" .
  then obtain p where p: "p < 2" and R: "?R p" by blast
  have e2: "hierarchy example_document ! 2 = (''r01'', 3)" by (simp add: h)
  have ix: "parseInt (charAt ''r01'' (int (length ''r01'') - 1)) = Some 1"
    by (simp add: charAt_def parseInt_def is_digit_def digit_value_def)
  have q: "round_double (1 / 4) = 1 / 4"
    using round_double_ratio [of 1 2] by simp
  have n2: "node_name (pco_objects pco ! 2) = ''r01''"
      "node_level (pco_objects pco ! 2) = 2"
      "node_index (pco_objects pco ! 2) = Some 1"
      "node_boundingBox (pco_objects pco ! 2) =
         createChildAABB (node_boundingBox (pco_objects pco ! p)) (Some 1)"
      "node_spacing (pco_objects pco ! 2) = 1 / 4"
      "node_numPoints (pco_objects pco ! 2) = 3"
      "fst (hierarchy example_document ! p) = ''r0''"
      "pco_nodes pco ''r0'' = Some p"
      "node_parent (pco_objects pco ! 2) = Some p"
      "node_children (pco_objects pco ! p) (Some 1) = Some 2"
      "pco_nodes pco ''r01'' = Some 2"
    using R unfolding Let_def e2 fst_conv snd_conv ix
    by (simp_all add: example_document_def q)
  have p1: "p = 1"
  proof -
    have "p \<noteq> 0"
    proof
      assume "p = 0"
      with n2(7) show False by (simp add: h)
    qed
    with p show ?thesis by simp
  qed
  from l n2 p1 show ?thesis by simp
qed

text \<open>
  The claim C1 states fails on two legacy documents. In the first, every entry's parent
  precedes it, but the first entry is called \<^verbatim>\<open>'root'\<close>: the root is registered under
  \<^verbatim>\<open>'r'\<close>, the parent \<^verbatim>\<open>'root'\<close> of the second entry is not in the index, and the load
  throws. In the second, the name \<^verbatim>\<open>'r0'\<close> is listed twice: the load succeeds, and the node
  built for the first of the two entries is neither the child of the root at index 0 nor
  registered under its name; both places hold the node of the later entry.
\<close>

theorem legacy_hierarchy_nodes_counterexample:
  "new_Version (version misnamed_root_document) = Some \<lparr>versionMajor = 1, versionMinor = 4\<rparr> \<and>
   upTo \<lparr>versionMajor = 1, versionMinor = 4\<rparr> (1, 4) \<and>
   every_parent_precedes (map fst (hierarchy misnamed_root_document)) \<and>
   onload_pco (\<lambda>a. a) ''http://host/cloud.json'' misnamed_root_document = Inl TypeError \<and>
   new_Version (version duplicate_document) = Some \<lparr>versionMajor = 1, versionMinor = 4\<rparr> \<and>
   every_parent_precedes (map fst (hierarchy duplicate_document)) \<and>
   (\<exists>ps pco. onload_pco (\<lambda>a. a) ''http://host/cloud.json'' duplicate_document = Inr (ps, pco) \<and>
      node_name (pco_objects pco ! 1) = ''r0'' \<and>
      node_numPoints (pco_objects pco ! 1) = 10 \<and>
      node_parent (pco_objects pco ! 1) = Some 0 \<and>
      node_children (pco_objects pco ! 0) = [Some 0 \<mapsto> 2] \<and>
      pco_nodes pco ''r0'' = Some 2)"
proof -
  have 1: "new_Version (version misnamed_root_document) = Some \<lparr>versionMajor = 1, versionMinor = 4\<rparr>"
    "new_Version (version duplicate_document) = Some \<lparr>versionMajor = 1, versionMinor = 4\<rparr>"
    by (simp_all add: misnamed_root_document_def duplicate_document_def example_document_def
        new_Version_1_4)
  have 2: "upTo \<lparr>versionMajor = 1, versionMinor = 4\<rparr> (1, 4)" by (simp add: upTo_def)
  have 3: "every_parent_precedes (map fst (hierarchy misnamed_root_document))"
    "every_parent_precedes (map fst (hierarchy duplicate_document))"
    by (simp_all add: every_parent_precedes_def misnamed_root_document_def duplicate_document_def)
  have 4: "onload_pco (\<lambda>a. a) ''http://host/cloud.json'' misnamed_root_document = Inl TypeError"
    by (simp add: onload_pco_def misnamed_root_document_def example_document_def new_Version_1_4
        upTo_def root_numPoints_def hierarchy_entry_def substring_def load_root_def Let_def
        split: prod.splits)
  have 5: "\<exists>ps pco. onload_pco (\<lambda>a. a) ''http://host/cloud.json'' duplicate_document = Inr (ps, pco) \<and>
      node_name (pco_objects pco ! 1) = ''r0'' \<and>
      node_numPoints (pco_objects pco ! 1) = 10 \<and>
      node_parent (pco_objects pco ! 1) = Some 0 \<and>
      node_children (pco_objects pco ! 0) = [Some 0 \<mapsto> 2] \<and>
      pco_nodes pco ''r0'' = Some 2"
    by (simp add: onload_pco_def duplicate_document_def example_document_def new_Version_1_4
        upTo_def root_numPoints_def hierarchy_entry_def substring_def charAt_def parseInt_def
        is_digit_def digit_value_def load_root_def addChild_def
        new_PointCloudOctreeGeometryNode_def Let_def numeral_2_eq_2 split: prod.splits)
  from 1 2 3 4 5 show ?thesis by blast
qed

text \<open>
  Claim C9. The root node has level 0, \<open>hasChildren\<close> true and the document's spacing;
  its point count is that of the first hierarchy entry if the version is at most 1.5,
  and 0 otherwise. The hypotheses are the conditions under which the load succeeds: the
  version parses, a first entry exists when it is read, and, for a legacy document, every
  entry's parent is indexed before it.
\<close>

theorem root_node:
  assumes "new_Version (version data) = Some v"
    and "upTo v (1, 5) \<longrightarrow> hierarchy data \<noteq> []"
    and "upTo v (1, 4) \<longrightarrow> parents_precede [''r''] (map fst (drop 1 (hierarchy data)))"
  shows "\<exists>ps pco. onload_pco PA url data = Inr (ps, pco) \<and>
     pco_root pco = 0 \<and>
     pco_root pco < length (pco_objects pco) \<and>
     node_name (pco_objects pco ! pco_root pco) = ''r'' \<and>
     node_boundingBox (pco_objects pco ! pco_root pco) = pco_boundingBox pco \<and>
     node_level (pco_objects pco ! pco_root pco) = 0 \<and>
     node_hasChildren (pco_objects pco ! pco_root pco) = Some True \<and>
     node_spacing (pco_objects pco ! pco_root pco) = spacing data \<and>
     node_numPoints (pco_objects pco ! pco_root pco) =
       (if upTo v (1, 5) then snd (hd (hierarchy data)) else 0)"
proof -
  let ?bbox = "fst (normalize_boxes (boundingBox data) (tightBoundingBox data))"
  let ?n = "if upTo v (1, 5) then snd (hd (hierarchy data)) else 0"
  let ?t0 = "load_root data ?bbox ?n"
  let ?r = "if upTo v (1, 4)
            then load_hierarchy (spacing data) (drop 1 (hierarchy data)) ?t0
            else Inr ?t0"
  have n: "root_numPoints v data = Inr ?n"
    using assms(2) by (cases "hierarchy data") (simp_all add: root_numPoints_def)
  have "\<exists>t. ?r = Inr t \<and> store_extends (objects ?t0) (objects t)"
  proof (cases "upTo v (1, 4)")
    case True
    with assms(3) have "parents_precede [''r''] (map fst (drop 1 (hierarchy data)))" by simp
    from load_hierarchy_succeeds [OF dom_load_root this]
    obtain t where t: "load_hierarchy (spacing data) (drop 1 (hierarchy data)) ?t0 = Inr t"
      by blast
    from load_hierarchy_entry_built [OF tree_inv_load_root t]
    have "store_extends (objects ?t0) (objects t)" by simp
    with t True show ?thesis by simp
  next
    case False
    then show ?thesis by (simp add: store_extends_refl)
  qed
  then obtain t where t: "?r = Inr t" and x: "store_extends (objects ?t0) (objects t)" by blast
  from onload_pco_tree [OF assms(1) n t]
  obtain pco where l: "onload_pco PA url data = Inr (phases t, pco)"
    and po: "pco_objects pco = objects t" and pr: "pco_root pco = 0"
    and pb: "pco_boundingBox pco = ?bbox"
    by blast
  from x have r: "0 < length (objects t)"
    "node_name (objects t ! 0) = ''r''"
    "node_boundingBox (objects t ! 0) = ?bbox"
    "node_level (objects t ! 0) = 0"
    "node_hasChildren (objects t ! 0) = Some True"
    "node_spacing (objects t ! 0) = spacing data"
    "node_numPoints (objects t ! 0) = ?n"
    by (auto simp: store_extends_def load_root_def Let_def new_PointCloudOctreeGeometryNode_def)
  show ?thesis
    by (rule exI [of _ "phases t"], rule exI [of _ pco]) (use r(1) in \<open>simp add: l r pr po pb\<close>)
qed

theorem root_node_witness:
  "(\<exists>ps pco. onload_pco (\<lambda>a. a) ''http://host/cloud.json'' example_document = Inr (ps, pco) \<and>
      node_level (pco_objects pco ! pco_root pco) = 0 \<and>
      node_hasChildren (pco_objects pco ! pco_root pco) = Some True \<and>
      node_spacing (pco_objects pco ! pco_root pco) = 1 \<and>
      node_numPoints (pco_objects pco ! pco_root pco) = 100) \<and>
   (\<exists>ps pco. onload_pco (\<lambda>a. a) ''http://host/cloud.json'' example_current = Inr (ps, pco) \<and>
      node_level (pco_objects pco ! pco_root pco) = 0 \<and>
      node_hasChildren (pco_objects pco ! pco_root pco) = Some True \<and>
      node_spacing (pco_objects pco ! pco_root pco) = 1 \<and>
      node_numPoints (pco_objects pco ! pco_root pco) = 0)"
proof -
  have v: "new_Version (version example_document) = Some \<lparr>versionMajor = 1, versionMinor = 4\<rparr>"
    by (simp add: example_document_def new_Version_1_4)
  have a: "upTo \<lparr>versionMajor = 1, versionMinor = 4\<rparr> (1, 5) \<longrightarrow> hierarchy example_document \<noteq> []"
    by (simp add: example_document_def)
  have b: "upTo \<lparr>versionMajor = 1, versionMinor = 4\<rparr> (1, 4) \<longrightarrow>
      parents_precede [''r''] (map fst (drop 1 (hierarchy example_document)))"
    by (simp add: example_document_def)
  have 1: "\<exists>ps pco. onload_pco (\<lambda>a. a) ''http://host/cloud.json'' example_document = Inr (ps, pco) \<and>
      node_level (pco_objects pco ! pco_root pco) = 0 \<and>
      node_hasChildren (pco_objects pco ! pco_root pco) = Some True \<and>
      node_spacing (pco_objects pco ! pco_root pco) = 1 \<and>
      node_numPoints (pco_objects pco ! pco_root pco) = 100"
    using root_node [OF v a b, of "\<lambda>a. a" "''http://host/cloud.json''"]
    by (simp add: upTo_def example_document_def) blast
  have v': "new_Version (version example_current) = Some \<lparr>versionMajor = 1, versionMinor = 7\<rparr>"
    by (simp add: example_current_def new_Version_1_7)
  have a': "upTo \<lparr>versionMajor = 1, versionMinor = 7\<rparr> (1, 5) \<longrightarrow> hierarchy example_current \<noteq> []"
    by (simp add: upTo_def)
  have b': "upTo \<lparr>versionMajor = 1, versionMinor = 7\<rparr> (1, 4) \<longrightarrow>
      parents_precede [''r''] (map fst (drop 1 (hierarchy example_current)))"
    by (simp add: upTo_def)
  have 2: "\<exists>ps pco. onload_pco (\<lambda>a. a) ''http://host/cloud.json'' example_current = Inr (ps, pco) \<and>
      node_level (pco_objects pco ! pco_root pco) = 0 \<and>
      node_hasChildren (pco_objects pco ! pco_root pco) = Some True \<and>
      node_spacing (pco_objects pco ! pco_root pco) = 1 \<and>
      node_numPoints (pco_objects pco ! pco_root pco) = 0"
    using root_node [OF v' a' b', of "\<lambda>a. a" "''http://host/cloud.json''"]
    by (simp add: upTo_def example_current_def) blast
  from 1 2 show ?thesis by (rule conjI)
qed

lemma onload_Inr:
  assumes "onload PA url data w = Inr w'"
  shows "\<exists>ps pco. onload_pco PA url data = Inr (ps, pco) \<and>
           w' = w\<lparr>callbacks := callbacks w @ [Some pco], recorded := recorded w @ ps @ [Done]\<rparr>"
  using assms by (auto simp: onload_def split: sum.splits)

text \<open>
  Claim C5, as the code has it. A successful load goes through the phases in this
  order: \<open>Normalizing\<close>, \<open>DecoderSelecting\<close>, \<open>TreeBuilding\<close> (the root node),
  \<open>RootLoadTriggered\<close>, \<open>TreeBuilding\<close> once for each entry after the first (legacy
  documents only), \<open>Done\<close>. The root's load is triggered after the decoder is selected
  and the root node is built, before the other nodes are built and before the callback
  is called. The callback is called once, with the descriptor \<open>onload_pco\<close> computes from
  the document: it holds the root and, for a legacy document, one node for each entry
  after the first.
\<close>

theorem load_phase_order:
  assumes "load PA url (Loaded data) w = Inr w'"
  shows "\<exists>v ps pco. new_Version (version data) = Some v \<and>
     onload_pco PA url data = Inr (ps, pco) \<and>
     ps = [Normalizing, DecoderSelecting, TreeBuilding, RootLoadTriggered] @
       replicate (if upTo v (1, 4) then length (hierarchy data) - 1 else 0) TreeBuilding \<and>
     length (pco_objects pco) = Suc (if upTo v (1, 4) then length (hierarchy data) - 1 else 0) \<and>
     w' = w\<lparr>callbacks := callbacks w @ [Some pco], recorded := recorded w @ ps @ [Done]\<rparr> \<and>
     callbacks w' = callbacks w @ [Some pco] \<and>
     recorded w' = recorded w @
       [Normalizing, DecoderSelecting, TreeBuilding, RootLoadTriggered] @
       replicate (if upTo v (1, 4) then length (hierarchy data) - 1 else 0) TreeBuilding @
       [Done]"
proof -
  from assms have "onload PA url data w = Inr w'" by (simp add: load_def)
  from onload_Inr [OF this] obtain ps pco where l: "onload_pco PA url data = Inr (ps, pco)"
    and w': "w' = w\<lparr>callbacks := callbacks w @ [Some pco], recorded := recorded w @ ps @ [Done]\<rparr>"
    by blast
  from onload_pco_Inr [OF l] obtain v n t where v: "new_Version (version data) = Some v"
    and t: "(if upTo v (1, 4)
      then load_hierarchy (spacing data) (drop 1 (hierarchy data))
             (load_root data (fst (normalize_boxes (boundingBox data) (tightBoundingBox data))) n)
      else Inr (load_root data (fst (normalize_boxes (boundingBox data) (tightBoundingBox data))) n)) = Inr t"
    and ps: "ps = phases t"
    and po: "pco_objects pco = objects t"
    by (elim exE conjE) simp
  let ?t0 = "load_root data (fst (normalize_boxes (boundingBox data) (tightBoundingBox data))) n"
  have p0: "phases ?t0 = [Normalizing, DecoderSelecting, TreeBuilding, RootLoadTriggered]"
    by (simp add: load_root_def Let_def)
  have o0: "length (objects ?t0) = 1"
    by (simp add: load_root_def Let_def)
  have "phases t = [Normalizing, DecoderSelecting, TreeBuilding, RootLoadTriggered] @
       replicate (if upTo v (1, 4) then length (hierarchy data) - 1 else 0) TreeBuilding \<and>
     length (objects t) = Suc (if upTo v (1, 4) then length (hierarchy data) - 1 else 0)"
  proof (cases "upTo v (1, 4)")
    case True
    with t have r: "load_hierarchy (spacing data) (drop 1 (hierarchy data)) ?t0 = Inr t" by simp
    from load_hierarchy_entry_built [OF tree_inv_load_root r]
    have "length (objects t) = length (objects ?t0) + length (drop 1 (hierarchy data))" by simp
    with load_hierarchy_phases [OF r] True p0 o0 show ?thesis by simp
  next
    case False
    with t p0 o0 show ?thesis by auto
  qed
  with v l w' ps po show ?thesis by simp
qed

theorem load_phase_order_witness:
  "\<exists>w' pco. load (\<lambda>a. a) ''http://host/cloud.json'' (Loaded example_document)
          \<lparr>numNodesLoading = 0, console = ([] :: (string \<times> string \<times> string) list),
           callbacks = [], recorded = []\<rparr> = Inr w' \<and>
     callbacks w' = [Some pco] \<and>
     length (pco_objects pco) = 3 \<and>
     recorded w' =
       [Normalizing, DecoderSelecting, TreeBuilding, RootLoadTriggered, TreeBuilding, TreeBuilding, Done]"
proof -
  let ?w = "\<lparr>numNodesLoading = 0, console = ([] :: (string \<times> string \<times> string) list),
           callbacks = [], recorded = []\<rparr> :: (string, string attribute_schema, string) world"
  obtain ps pco where "onload_pco (\<lambda>a. a) ''http://host/cloud.json'' example_document = Inr (ps, pco)"
    using example_document_loads by blast
  then obtain w' where l: "load (\<lambda>a. a) ''http://host/cloud.json'' (Loaded example_document) ?w = Inr w'"
    by (simp add: load_def onload_def)
  from load_phase_order [OF l] have "\<exists>pco. callbacks w' = [Some pco] \<and>
     length (pco_objects pco) = 3 \<and>
     recorded w' =
       [Normalizing, DecoderSelecting, TreeBuilding, RootLoadTriggered, TreeBuilding, TreeBuilding, Done]"
    by (auto simp: example_document_def new_Version_1_4 upTo_def)
  with l show ?thesis by blast
qed

text \<open>
  The order claim C5 states (tree building before decoder selection, the root's load after
  the full tree) fails on the example document: the decoder is selected before any node
  is built, and the root's load is triggered before the nodes \<^verbatim>\<open>r0\<close> and \<^verbatim>\<open>r01\<close> are built.
\<close>

theorem load_phase_order_counterexample:
  "\<exists>w'. load (\<lambda>a. a) ''http://host/cloud.json'' (Loaded example_document)
          \<lparr>numNodesLoading = 0, console = ([] :: (string \<times> string \<times> string) list),
           callbacks = [], recorded = []\<rparr> = Inr w' \<and>
     recorded w' =
       [Normalizing, DecoderSelecting, TreeBuilding, RootLoadTriggered, TreeBuilding, TreeBuilding, Done] \<and>
     \<not> in_spec_order (recorded w')"
  by (simp add: load_def onload_def onload_pco_def example_document_def new_Version_1_4 upTo_def
      root_numPoints_def hierarchy_entry_def substring_def charAt_def load_root_def Let_def
      in_spec_order_def spec_rank_def split: prod.splits)

end
